theory Spec2Isabelle
  imports Complex_Main "HOL-Library.Word" "HOL-Library.Signed_Division"
begin

section \<open>PrismCast fMP4 segmenter (fmp4Segmenter.ts)\<close>

text \<open>
  A shallow embedding of \<^verbatim>\<open>createFMP4Segmenter\<close> and the functions it closes over.
  The closure's mutable \<^verbatim>\<open>state\<close> object is a record that every function takes and
  returns; the calls into the segment store and the two callbacks are appended to an
  effect log kept beside it. JavaScript \<^verbatim>\<open>number\<close> values that count things are
  \<open>int\<close>, \<^verbatim>\<open>bigint\<close> values are \<open>int\<close>, and \<^verbatim>\<open>number\<close> values that hold seconds are
  \<open>rat\<close> (exact: the rounding of double division is not modelled). Each entry point
  takes the value that \<^verbatim>\<open>Date.now()\<close> returns during the call as an argument
  \<open>now\<close> (milliseconds). Calls to \<^verbatim>\<open>LOG\<close> are left out.
\<close>

subsection \<open>Data model\<close>

type_synonym bytes = "8 word list"

text \<open>\<^verbatim>\<open>MP4Box\<close>: the four-character type and the raw bytes of a top-level box.\<close>

record MP4Box =
  type :: string
  data :: bytes

text \<open>
  \<^verbatim>\<open>CONFIG.hls\<close> and the helpers imported from \<^verbatim>\<open>mp4Parser.js\<close>, whose code is not part
  of the sources at hand, are parameters of the model:
  \<^item> \<open>parseMoovTimescales\<close>: the map of timescales read from a moov, \<open>None\<close> when it throws;
  \<^item> \<open>trafDurationsOf\<close>: for a moof, the track id and the summed trun duration of each
    traf in box order, \<open>None\<close> when a required sub-box is missing or malformed;
  \<^item> \<open>patchTfdt\<close>: the moof bytes with the given \<^verbatim>\<open>baseMediaDecodeTime\<close> written into the
    tfdt of each traf;
  \<^item> \<open>detectMoofKeyframe\<close>: \<open>None\<close> when it throws, \<open>Some None\<close> for \<^verbatim>\<open>null\<close>;
  \<^item> \<open>parserPush\<close>: given the parser's residue and a chunk, the complete boxes delivered
    to the callback, the new residue, and the message of the error thrown after
    delivering them, if any.
\<close>

record environment =
  segmentDuration :: rat
  maxSegments :: int
  parseMoovTimescales :: "bytes \<Rightarrow> (nat \<rightharpoonup> nat) option"
  trafDurationsOf :: "bytes \<Rightarrow> (nat \<times> nat) list option"
  patchTfdt :: "bytes \<Rightarrow> (nat \<times> int) list \<Rightarrow> bytes"
  detectMoofKeyframe :: "bytes \<Rightarrow> bool option option"
  parserPush :: "bytes \<Rightarrow> bytes \<Rightarrow> MP4Box list \<times> bytes \<times> string option"

definition KEYFRAME_DEBUG :: bool where
  "KEYFRAME_DEBUG = False"

definition DURATION_SANITY_RATIO :: int where
  "DURATION_SANITY_RATIO = 20"

text \<open>\<^verbatim>\<open>FMP4SegmenterOptions\<close>; an optional field that is absent is \<open>None\<close>.\<close>

record FMP4SegmenterOptions =
  initialTrackTimestamps :: "(nat \<rightharpoonup> int) option"
  optPendingDiscontinuity :: "bool option"
  previousInitSegment :: "bytes option"
  startingInitVersion :: "int option"
  startingSegmentIndex :: "int option"
  streamId :: nat

text \<open>What the segmenter does to the outside: the store calls and the callbacks.\<close>

datatype effect =
    StoreInitSegment nat bytes
  | StoreSegment nat string bytes
  | UpdatePlaylist nat string
  | OnError string
  | OnStop

datatype listener = DataListener | EndListener | ErrorListener

text \<open>
  \<^verbatim>\<open>SegmenterState\<close>, field by field. \<^verbatim>\<open>minKeyframeIntervalMs\<close> starts at
  \<^verbatim>\<open>Infinity\<close>, which is \<open>None\<close> here. \<open>segmentTrackDurations\<close> is iterated by
  \<^verbatim>\<open>outputSegment\<close>, so it is an association list in insertion order.
\<close>

record SegmenterState =
  discontinuityIndices :: "int set"
  firstSegmentEmitted :: bool
  fragmentBuffer :: "bytes list"
  hasInit :: bool
  indeterminateCount :: int
  initBoxes :: "bytes list"
  initSegment :: "bytes option"
  initVersion :: int
  keyframeCount :: int
  lastKeyframeTime :: "int option"
  lastSegmentSize :: int
  maxKeyframeIntervalMs :: int
  minKeyframeIntervalMs :: "int option"
  nonKeyframeCount :: int
  pendingDiscontinuity :: bool
  segmentDurations :: "int \<rightharpoonup> rat"
  segmentFirstMoofChecked :: bool
  segmentIndex :: int
  segmentStartTime :: int
  segmentTrackDurations :: "(nat \<times> int) list"
  segmentsWithoutLeadingKeyframe :: int
  stopped :: bool
  totalKeyframeIntervalMs :: int
  trackExpectedDurations :: "nat \<rightharpoonup> int"
  trackTimescales :: "nat \<rightharpoonup> nat"
  trackTimestamps :: "nat \<rightharpoonup> int"
  zeroDurationWarned :: "nat set"

text \<open>
  The closure around the state: the options, the \<^verbatim>\<open>inputStream\<close> variable (streams are
  named by numbers), the listeners registered on streams (one entry per \<^verbatim>\<open>on\<close> call),
  the parser's residue of a partial box, and the effect log.
\<close>

record segmenter = SegmenterState +
  options :: FMP4SegmenterOptions
  inputStream :: "nat option"
  listeners :: "(nat \<times> listener) list"
  parserResidue :: bytes
  effects :: "effect list"

subsection \<open>Strings\<close>

text \<open>\<^verbatim>\<open>String(n)\<close> for an integral number, and \<^verbatim>\<open>x.toFixed(3)\<close> below \<open>10^21\<close>.\<close>

definition digitChar :: "nat \<Rightarrow> char" where
  "digitChar d = ''0123456789'' ! d"

fun String_nat :: "nat \<Rightarrow> string" where
  "String_nat n = (if n < 10 then [digitChar n] else String_nat (n div 10) @ [digitChar (n mod 10)])"

declare String_nat.simps [simp del]

definition String_int :: "int \<Rightarrow> string" where
  "String_int i = (if i < 0 then CHR ''-'' # String_nat (nat (- i)) else String_nat (nat i))"

definition pad3 :: "nat \<Rightarrow> string" where
  "pad3 n = [digitChar (n div 100 mod 10), digitChar (n div 10 mod 10), digitChar (n mod 10)]"

definition toFixed3 :: "rat \<Rightarrow> string" where
  "toFixed3 x =
     (let a = \<bar>x\<bar>;
          n = nat \<lfloor>a * 1000 + 1 / 2\<rfloor>
      in (if x < 0 then ''-'' else '''') @ String_nat (n div 1000) @ ''.'' @ pad3 (n mod 1000))"

fun joinWith :: "string \<Rightarrow> string list \<Rightarrow> string" where
  "joinWith sep [] = ''''"
| "joinWith sep [l] = l"
| "joinWith sep (l # ls) = l @ sep @ joinWith sep ls"

definition newline :: string where
  "newline = [CHR 0x0A]"

subsection \<open>Creation\<close>

definition createFMP4Segmenter :: "FMP4SegmenterOptions \<Rightarrow> int \<Rightarrow> segmenter" where
  "createFMP4Segmenter opts now =
     \<lparr> discontinuityIndices = {},
       firstSegmentEmitted = False,
       fragmentBuffer = [],
       hasInit = False,
       indeterminateCount = 0,
       initBoxes = [],
       initSegment = None,
       initVersion = (case startingInitVersion opts of None \<Rightarrow> 0 | Some v \<Rightarrow> v),
       keyframeCount = 0,
       lastKeyframeTime = None,
       lastSegmentSize = 0,
       maxKeyframeIntervalMs = 0,
       minKeyframeIntervalMs = None,
       nonKeyframeCount = 0,
       pendingDiscontinuity = (case optPendingDiscontinuity opts of None \<Rightarrow> False | Some p \<Rightarrow> p),
       segmentDurations = Map.empty,
       segmentFirstMoofChecked = False,
       segmentIndex = (case startingSegmentIndex opts of None \<Rightarrow> 0 | Some i \<Rightarrow> i),
       segmentStartTime = now,
       segmentTrackDurations = [],
       segmentsWithoutLeadingKeyframe = 0,
       stopped = False,
       totalKeyframeIntervalMs = 0,
       trackExpectedDurations = Map.empty,
       trackTimescales = Map.empty,
       trackTimestamps = (case initialTrackTimestamps opts of None \<Rightarrow> Map.empty | Some m \<Rightarrow> m),
       zeroDurationWarned = {},
       options = opts,
       inputStream = None,
       listeners = [],
       parserResidue = [],
       effects = [] \<rparr>"

subsection \<open>Playlist\<close>

definition mapLine :: "segmenter \<Rightarrow> string" where
  "mapLine s = ''#EXT-X-MAP:URI=\"init.mp4?v='' @ String_int (initVersion s) @ ''\"''"

definition durationAt :: "environment \<Rightarrow> segmenter \<Rightarrow> int \<Rightarrow> rat" where
  "durationAt env s i = (case segmentDurations s i of None \<Rightarrow> segmentDuration env | Some d \<Rightarrow> d)"

text \<open>The first loop of \<^verbatim>\<open>generatePlaylist\<close>: the running maximum from index \<open>i\<close> on.\<close>

function maxDurationFrom :: "environment \<Rightarrow> segmenter \<Rightarrow> int \<Rightarrow> rat \<Rightarrow> rat" where
  "maxDurationFrom env s i maxDuration =
     (if i < segmentIndex s
      then let duration = durationAt env s i
           in maxDurationFrom env s (i + 1) (if duration > maxDuration then duration else maxDuration)
      else maxDuration)"
  by pat_completeness auto
termination
  by (relation "measure (\<lambda>(env, s, i, m). nat (segmentIndex s - i))") auto

declare maxDurationFrom.simps [simp del]

text \<open>The second loop: the lines pushed for the segments from index \<open>i\<close> on.\<close>

function segmentLinesFrom :: "environment \<Rightarrow> segmenter \<Rightarrow> int \<Rightarrow> string list \<Rightarrow> string list" where
  "segmentLinesFrom env s i lines =
     (if i < segmentIndex s
      then let lines1 = (if i \<in> discontinuityIndices s
                         then lines @ [''#EXT-X-DISCONTINUITY'', mapLine s]
                         else lines);
               duration = durationAt env s i
           in segmentLinesFrom env s (i + 1)
                (lines1 @ [''#EXTINF:'' @ toFixed3 duration @ '','',
                           ''segment'' @ String_int i @ ''.m4s''])
      else lines)"
  by pat_completeness auto
termination
  by (relation "measure (\<lambda>(env, s, i, ls). nat (segmentIndex s - i))") auto

declare segmentLinesFrom.simps [simp del]

definition playlistLines :: "environment \<Rightarrow> segmenter \<Rightarrow> string list" where
  "playlistLines env s =
     (let startIndex = max 0 (segmentIndex s - maxSegments env);
          maxDuration = maxDurationFrom env s startIndex (segmentDuration env);
          lines = [''#EXTM3U'',
                   ''#EXT-X-VERSION:7'',
                   ''#EXT-X-TARGETDURATION:'' @ String_int \<lceil>maxDuration\<rceil>,
                   ''#EXT-X-MEDIA-SEQUENCE:'' @ String_int startIndex,
                   mapLine s]
      in segmentLinesFrom env s startIndex lines @ [''''])"

definition generatePlaylist :: "environment \<Rightarrow> segmenter \<Rightarrow> string" where
  "generatePlaylist env s = joinWith newline (playlistLines env s)"

subsection \<open>Emitting a segment\<close>

definition resetSegmentTracking :: "int \<Rightarrow> segmenter \<Rightarrow> segmenter" where
  "resetSegmentTracking now s =
     s\<lparr> fragmentBuffer := [],
        segmentFirstMoofChecked := False,
        segmentStartTime := now,
        segmentTrackDurations := [] \<rparr>"

text \<open>The loop of \<^verbatim>\<open>outputSegment\<close> over the accumulated track durations.\<close>

fun mediaDurationOver :: "(nat \<rightharpoonup> nat) \<Rightarrow> (nat \<times> int) list \<Rightarrow> rat \<Rightarrow> rat" where
  "mediaDurationOver ts [] mediaDuration = mediaDuration"
| "mediaDurationOver ts ((trackId, accumulated) # rest) mediaDuration =
     (case ts trackId of
        None \<Rightarrow> mediaDurationOver ts rest mediaDuration
      | Some timescale \<Rightarrow>
          if timescale \<noteq> 0 \<and> accumulated > 0
          then let seconds = of_int accumulated / of_nat timescale
               in mediaDurationOver ts rest (if seconds > mediaDuration then seconds else mediaDuration)
          else mediaDurationOver ts rest mediaDuration)"

definition outputSegment :: "environment \<Rightarrow> int \<Rightarrow> segmenter \<Rightarrow> segmenter" where
  "outputSegment env now s =
     (if fragmentBuffer s = [] then s
      else
        let s1 = (if pendingDiscontinuity s
                  then s\<lparr> discontinuityIndices := insert (segmentIndex s) (discontinuityIndices s),
                          pendingDiscontinuity := False \<rparr>
                  else s);
            mediaDuration = mediaDurationOver (trackTimescales s1) (segmentTrackDurations s1) 0;
            actualDuration = max (1 / 10)
                               (if mediaDuration > 0 then mediaDuration
                                else of_int (now - segmentStartTime s1) / 1000);
            s2 = s1\<lparr> segmentDurations := (segmentDurations s1)(segmentIndex s1 \<mapsto> actualDuration) \<rparr>;
            segmentData = concat (fragmentBuffer s2);
            segmentName = ''segment'' @ String_int (segmentIndex s2) @ ''.m4s'';
            s3 = s2\<lparr> effects := effects s2 @ [StoreSegment (streamId (options s2)) segmentName segmentData],
                     lastSegmentSize := int (length segmentData) \<rparr>;
            s4 = s3\<lparr> segmentIndex := segmentIndex s3 + 1, firstSegmentEmitted := True \<rparr>;
            pruneThreshold = max 0 (segmentIndex s4 - maxSegments env);
            s5 = s4\<lparr> segmentDurations :=
                        (\<lambda>idx. if idx < pruneThreshold then None else segmentDurations s4 idx) \<rparr>;
            s6 = resetSegmentTracking now s5
        in s6\<lparr> effects := effects s6 @ [UpdatePlaylist (streamId (options s6)) (generatePlaylist env s6)] \<rparr>)"

subsection \<open>Keyframe statistics\<close>

definition trackKeyframe :: "int \<Rightarrow> bool option \<Rightarrow> segmenter \<Rightarrow> segmenter" where
  "trackKeyframe now isKeyframe s =
     (let s1 =
        (if isKeyframe = Some True then
           let a = s\<lparr> keyframeCount := keyframeCount s + 1 \<rparr>;
               b = (case lastKeyframeTime a of
                      None \<Rightarrow> a
                    | Some lastT \<Rightarrow>
                        let intervalMs = now - lastT;
                            b1 = a\<lparr> totalKeyframeIntervalMs := totalKeyframeIntervalMs a + intervalMs \<rparr>;
                            b2 = (if (case minKeyframeIntervalMs b1 of None \<Rightarrow> True | Some m \<Rightarrow> intervalMs < m)
                                  then b1\<lparr> minKeyframeIntervalMs := Some intervalMs \<rparr> else b1)
                        in (if intervalMs > maxKeyframeIntervalMs b2
                            then b2\<lparr> maxKeyframeIntervalMs := intervalMs \<rparr> else b2))
           in b\<lparr> lastKeyframeTime := Some now \<rparr>
         else if isKeyframe = Some False then s\<lparr> nonKeyframeCount := nonKeyframeCount s + 1 \<rparr>
         else s\<lparr> indeterminateCount := indeterminateCount s + 1 \<rparr>)
      in (if \<not> segmentFirstMoofChecked s1 then
            let s2 = s1\<lparr> segmentFirstMoofChecked := True \<rparr>
            in (if isKeyframe \<noteq> Some True
                then s2\<lparr> segmentsWithoutLeadingKeyframe := segmentsWithoutLeadingKeyframe s2 + 1 \<rparr>
                else s2)
          else s1))"

subsection \<open>The moof rewriter\<close>

text \<open>\<^verbatim>\<open>Map.prototype.set\<close> on a map kept in insertion order.\<close>

fun mapSet :: "'k \<Rightarrow> 'v \<Rightarrow> ('k \<times> 'v) list \<Rightarrow> ('k \<times> 'v) list" where
  "mapSet k v [] = [(k, v)]"
| "mapSet k v ((k', v') # rest) = (if k = k' then (k, v) # rest else (k', v') # mapSet k v rest)"

text \<open>
  Modelled from the spec: \<^verbatim>\<open>rewriteMoofTimestamps\<close> of \<^verbatim>\<open>mp4Parser.ts\<close> is not among the
  sources. Following section 4.3 of the specification, for each traf of the moof it
  writes the track's current counter (zero when the track has none yet) into the tfdt,
  advances the counter by the traf's summed sample duration, and reports that sum under
  the track id; when a required sub-box is missing or malformed it throws, which is
  \<open>None\<close> here, and no counter has been advanced. The result holds the patched
  bytes, the advanced counters and the reported durations in insertion order; a second
  traf of one track advances the counter again and replaces the reported duration.
\<close>

fun rewriteTrafs ::
  "(nat \<times> nat) list \<Rightarrow> (nat \<rightharpoonup> int) \<Rightarrow> (nat \<times> int) list \<Rightarrow> (nat \<times> int) list
     \<Rightarrow> (nat \<rightharpoonup> int) \<times> (nat \<times> int) list \<times> (nat \<times> int) list" where
  "rewriteTrafs [] counters stamps durations = (counters, stamps, durations)"
| "rewriteTrafs ((trackId, trunSum) # rest) counters stamps durations =
     (let current = (case counters trackId of None \<Rightarrow> 0 | Some c \<Rightarrow> c)
      in rewriteTrafs rest (counters(trackId \<mapsto> current + int trunSum))
           (stamps @ [(trackId, current)]) (mapSet trackId (int trunSum) durations))"

definition rewriteMoofTimestamps ::
  "environment \<Rightarrow> bytes \<Rightarrow> (nat \<rightharpoonup> int) \<Rightarrow> (bytes \<times> (nat \<rightharpoonup> int) \<times> (nat \<times> int) list) option" where
  "rewriteMoofTimestamps env moof counters =
     (case trafDurationsOf env moof of
        None \<Rightarrow> None
      | Some trafs \<Rightarrow>
          (case rewriteTrafs trafs counters [] [] of
             (counters', stamps, durations) \<Rightarrow> Some (patchTfdt env moof stamps, counters', durations)))"

subsection \<open>Handling a box\<close>

text \<open>
  The body of the loop over \<^verbatim>\<open>trafDurations\<close> in \<^verbatim>\<open>handleBox\<close>. \<open>abnormalDuration\<close>
  is the sanity test for a track whose baseline \<open>expected\<close> is defined (an undefined
  or zero \<^verbatim>\<open>expected\<close> is falsy); BigInt division truncates, as \<open>sdiv\<close> does.
  \<open>accumulateDuration\<close> is the final update of \<^verbatim>\<open>segmentTrackDurations\<close> with the
  effective duration. The branch \<^verbatim>\<open>!trackExpectedDurations.has(trackId)\<close> is the case
  \<open>None\<close> of the lookup.
\<close>

definition abnormalDuration :: "int \<Rightarrow> int \<Rightarrow> bool" where
  "abnormalDuration expected duration =
     (expected \<noteq> 0 \<and> expected > 0 \<and>
      (duration > expected * DURATION_SANITY_RATIO \<or> duration < expected sdiv DURATION_SANITY_RATIO))"

definition accumulateDuration :: "nat \<Rightarrow> int \<Rightarrow> segmenter \<Rightarrow> segmenter" where
  "accumulateDuration trackId effectiveDuration s =
     (let prev = (case map_of (segmentTrackDurations s) trackId of None \<Rightarrow> 0 | Some p \<Rightarrow> p)
      in s\<lparr> segmentTrackDurations := mapSet trackId (prev + effectiveDuration) (segmentTrackDurations s) \<rparr>)"

definition checkTrafDuration :: "nat \<Rightarrow> int \<Rightarrow> segmenter \<Rightarrow> segmenter" where
  "checkTrafDuration trackId duration s =
     (if duration = 0 then
        (if trackId \<notin> zeroDurationWarned s
         then s\<lparr> zeroDurationWarned := insert trackId (zeroDurationWarned s) \<rparr>
         else s)
      else
        (case trackExpectedDurations s trackId of
           Some expected \<Rightarrow>
             if abnormalDuration expected duration then
               let s1 = (case trackTimestamps s trackId of
                           Some current \<Rightarrow>
                             s\<lparr> trackTimestamps :=
                                  (trackTimestamps s)(trackId \<mapsto> current - duration + expected) \<rparr>
                         | None \<Rightarrow> s)
               in accumulateDuration trackId expected s1
             else accumulateDuration trackId duration s
         | None \<Rightarrow>
             accumulateDuration trackId duration
               (s\<lparr> trackExpectedDurations := (trackExpectedDurations s)(trackId \<mapsto> duration) \<rparr>)))"

fun processTrafDurations :: "(nat \<times> int) list \<Rightarrow> segmenter \<Rightarrow> segmenter" where
  "processTrafDurations [] s = s"
| "processTrafDurations ((trackId, duration) # rest) s =
     processTrafDurations rest (checkTrafDuration trackId duration s)"

text \<open>
  \<^verbatim>\<open>handleBox\<close>, block by block: the init branch (an ftyp or moov before the init is
  complete), the cut decision taken when a moof arrives, the guarded rewrite with the
  loop over its result (which yields the state and the moof bytes to append), and the
  keyframe diagnostics.
\<close>

definition handleInitBox :: "environment \<Rightarrow> MP4Box \<Rightarrow> segmenter \<Rightarrow> segmenter" where
  "handleInitBox env box s =
     (let s1 = s\<lparr> initBoxes := initBoxes s @ [data box] \<rparr>
      in (if type box = ''moov'' then
            let initData = concat (initBoxes s1);
                s2 = s1\<lparr> effects := effects s1 @ [StoreInitSegment (streamId (options s1)) initData],
                         hasInit := True,
                         initSegment := Some initData \<rparr>;
                initChanged = (case previousInitSegment (options s2) of
                                 None \<Rightarrow> True
                               | Some previous \<Rightarrow> initData \<noteq> previous);
                s3 = (if initChanged then s2\<lparr> initVersion := initVersion s2 + 1 \<rparr> else s2);
                s4 = (case parseMoovTimescales env (data box) of
                        Some timescales \<Rightarrow> s3\<lparr> trackTimescales := timescales \<rparr>
                      | None \<Rightarrow> s3)
            in (if \<not> initChanged \<and> pendingDiscontinuity s4
                then s4\<lparr> pendingDiscontinuity := False \<rparr>
                else s4)
          else s1))"

definition cutBeforeMoof :: "environment \<Rightarrow> int \<Rightarrow> segmenter \<Rightarrow> segmenter" where
  "cutBeforeMoof env now s =
     (if fragmentBuffer s \<noteq> [] then
        (if \<not> firstSegmentEmitted s then outputSegment env now s
         else
           let elapsedMs = now - segmentStartTime s;
               targetMs = segmentDuration env * 1000
           in (if of_int elapsedMs \<ge> targetMs then outputSegment env now s else s))
      else s)"

definition rewriteAndCheck :: "environment \<Rightarrow> MP4Box \<Rightarrow> segmenter \<Rightarrow> segmenter \<times> bytes" where
  "rewriteAndCheck env box s =
     (case rewriteMoofTimestamps env (data box) (trackTimestamps s) of
        Some (rewritten, counters, trafDurations) \<Rightarrow>
          (processTrafDurations trafDurations (s\<lparr> trackTimestamps := counters \<rparr>), rewritten)
      | None \<Rightarrow> (s, data box))"

definition keyframeDiagnostics :: "environment \<Rightarrow> int \<Rightarrow> bytes \<Rightarrow> segmenter \<Rightarrow> segmenter" where
  "keyframeDiagnostics env now moof s =
     (if KEYFRAME_DEBUG then
        (case detectMoofKeyframe env moof of
           Some isKeyframe \<Rightarrow> trackKeyframe now isKeyframe s
         | None \<Rightarrow> s\<lparr> indeterminateCount := indeterminateCount s + 1 \<rparr>)
      else s)"

definition handleMoof :: "environment \<Rightarrow> int \<Rightarrow> MP4Box \<Rightarrow> segmenter \<Rightarrow> segmenter" where
  "handleMoof env now box s =
     (case rewriteAndCheck env box (cutBeforeMoof env now s) of
        (s2, moof) \<Rightarrow>
          (let s3 = keyframeDiagnostics env now moof s2
           in s3\<lparr> fragmentBuffer := fragmentBuffer s3 @ [moof] \<rparr>))"

definition handleBox :: "environment \<Rightarrow> int \<Rightarrow> MP4Box \<Rightarrow> segmenter \<Rightarrow> segmenter" where
  "handleBox env now box s =
     (if stopped s then s
      else if \<not> hasInit s \<and> (type box = ''ftyp'' \<or> type box = ''moov'') then handleInitBox env box s
      else if type box = ''moof'' then handleMoof env now box s
      else if type box = ''mdat'' then s\<lparr> fragmentBuffer := fragmentBuffer s @ [data box] \<rparr>
      else if hasInit s then s\<lparr> fragmentBuffer := fragmentBuffer s @ [data box] \<rparr>
      else s)"

subsection \<open>Stream handlers and the returned interface\<close>

text \<open>
  Modelled from the spec: \<^verbatim>\<open>createMP4BoxParser\<close> is not among the sources. By section
  4.1 of the specification, \<^verbatim>\<open>flush()\<close> discards any residual partial box.
\<close>

definition parserFlush :: "segmenter \<Rightarrow> segmenter" where
  "parserFlush s = s\<lparr> parserResidue := [] \<rparr>"

definition handleData :: "environment \<Rightarrow> int \<Rightarrow> bytes \<Rightarrow> segmenter \<Rightarrow> segmenter" where
  "handleData env now chunk s =
     (if stopped s then s
      else
        (case parserPush env (parserResidue s) chunk of
           (boxes, residue, thrown) \<Rightarrow>
             let s1 = foldl (\<lambda>st box. handleBox env now box st) (s\<lparr> parserResidue := residue \<rparr>) boxes
             in (case thrown of
                   None \<Rightarrow> s1
                 | Some error \<Rightarrow> s1\<lparr> effects := effects s1 @ [OnError error] \<rparr>)))"

definition handleEnd :: "environment \<Rightarrow> int \<Rightarrow> segmenter \<Rightarrow> segmenter" where
  "handleEnd env now s =
     (if stopped s then s
      else
        let s1 = (if fragmentBuffer s \<noteq> [] then outputSegment env now s else s);
            s2 = parserFlush (s1\<lparr> stopped := True \<rparr>)
        in s2\<lparr> effects := effects s2 @ [OnStop] \<rparr>)"

definition handleError :: "string \<Rightarrow> segmenter \<Rightarrow> segmenter" where
  "handleError error s =
     (if stopped s then s
      else
        let s1 = parserFlush (s\<lparr> stopped := True \<rparr>)
        in s1\<lparr> effects := effects s1 @ [OnError error] \<rparr>)"

definition getInitSegment :: "segmenter \<Rightarrow> bytes option" where
  "getInitSegment s = initSegment s"

definition getInitVersion :: "segmenter \<Rightarrow> int" where
  "getInitVersion s = initVersion s"

definition getSegmentIndex :: "segmenter \<Rightarrow> int" where
  "getSegmentIndex s = segmentIndex s"

definition getTrackTimestamps :: "segmenter \<Rightarrow> (nat \<rightharpoonup> int)" where
  "getTrackTimestamps s = trackTimestamps s"

definition markDiscontinuity :: "environment \<Rightarrow> int \<Rightarrow> segmenter \<Rightarrow> segmenter" where
  "markDiscontinuity env now s =
     (if stopped s then s
      else (outputSegment env now s)\<lparr> pendingDiscontinuity := True \<rparr>)"

definition pipe :: "nat \<Rightarrow> segmenter \<Rightarrow> segmenter" where
  "pipe stream s =
     s\<lparr> inputStream := Some stream,
        listeners := listeners s @ [(stream, DataListener), (stream, EndListener), (stream, ErrorListener)] \<rparr>"

definition stop :: "segmenter \<Rightarrow> segmenter" where
  "stop s =
     (if stopped s then s
      else
        let s1 = s\<lparr> stopped := True \<rparr>;
            s2 = (case inputStream s1 of
                    Some stream \<Rightarrow>
                      s1\<lparr> listeners := remove1 (stream, ErrorListener)
                                         (remove1 (stream, EndListener)
                                           (remove1 (stream, DataListener) (listeners s1))) \<rparr>
                  | None \<Rightarrow> s1)
        in parserFlush s2)"

text \<open>
  A stream emitting an event calls each handler registered on it for that event, once
  per registration, as Node's \<^verbatim>\<open>EventEmitter\<close> does.
\<close>

datatype streamEvent = DataEvent bytes | EndEvent | ErrorEvent string

fun listenerOf :: "streamEvent \<Rightarrow> listener" where
  "listenerOf (DataEvent chunk) = DataListener"
| "listenerOf EndEvent = EndListener"
| "listenerOf (ErrorEvent error) = ErrorListener"

fun handlerOf :: "environment \<Rightarrow> int \<Rightarrow> streamEvent \<Rightarrow> segmenter \<Rightarrow> segmenter" where
  "handlerOf env now (DataEvent chunk) = handleData env now chunk"
| "handlerOf env now EndEvent = handleEnd env now"
| "handlerOf env now (ErrorEvent error) = handleError error"

definition emit :: "environment \<Rightarrow> int \<Rightarrow> nat \<Rightarrow> streamEvent \<Rightarrow> segmenter \<Rightarrow> segmenter" where
  "emit env now stream ev s =
     (handlerOf env now ev ^^ length (filter (\<lambda>l. l = (stream, listenerOf ev)) (listeners s))) s"

text \<open>Everything that can happen to a segmenter, and a run of such calls, each at its time.\<close>

datatype call =
    HandleBox MP4Box
  | MarkDiscontinuity
  | Pipe nat
  | Stop
  | Emit nat streamEvent

fun step :: "environment \<Rightarrow> segmenter \<Rightarrow> int \<times> call \<Rightarrow> segmenter" where
  "step env s (now, HandleBox box) = handleBox env now box s"
| "step env s (now, MarkDiscontinuity) = markDiscontinuity env now s"
| "step env s (now, Pipe stream) = pipe stream s"
| "step env s (now, Stop) = stop s"
| "step env s (now, Emit stream ev) = emit env now stream ev s"

definition run :: "environment \<Rightarrow> segmenter \<Rightarrow> (int \<times> call) list \<Rightarrow> segmenter" where
  "run env s calls = foldl (step env) s calls"

subsection \<open>The specification's words\<close>

text \<open>
  The definitions of this subsection follow the specification, not the code; the
  theorems compare them with the functions above. First the playlist: the sliding window
  \<open>[max(0, nextIndex - maxSegments), nextIndex)\<close>, the lines listed for one index of it,
  the maximum duration over it, floored at the configured target, and the durations
  actually recorded for the indices of a window, in window order.
\<close>

definition playlistWindow :: "environment \<Rightarrow> segmenter \<Rightarrow> int list" where
  "playlistWindow env s = [max 0 (segmentIndex s - maxSegments env) .. segmentIndex s - 1]"

definition windowEntry :: "environment \<Rightarrow> segmenter \<Rightarrow> int \<Rightarrow> string list" where
  "windowEntry env s i =
     (if i \<in> discontinuityIndices s then [''#EXT-X-DISCONTINUITY'', mapLine s] else [])
     @ [''#EXTINF:'' @ toFixed3 (durationAt env s i) @ '','', ''segment'' @ String_int i @ ''.m4s'']"

definition windowMaxDuration :: "environment \<Rightarrow> segmenter \<Rightarrow> rat" where
  "windowMaxDuration env s =
     Max (insert (segmentDuration env) (durationAt env s ` set (playlistWindow env s)))"

definition recordedDurations :: "segmenter \<Rightarrow> int list \<Rightarrow> rat list" where
  "recordedDurations s window =
     concat (map (\<lambda>i. case segmentDurations s i of None \<Rightarrow> [] | Some d \<Rightarrow> [d]) window)"

text \<open>
  The segment-cut policy: a cut is due when the fragment buffer is not empty and either
  no segment has been emitted yet or the wall-clock time since \<open>segmentStartTime\<close> has
  reached the target.
\<close>

definition cutDue :: "environment \<Rightarrow> int \<Rightarrow> segmenter \<Rightarrow> bool" where
  "cutDue env now s =
     (fragmentBuffer s \<noteq> [] \<and>
      (\<not> firstSegmentEmitted s \<or> of_int (now - segmentStartTime s) \<ge> segmentDuration env * 1000))"





text \<open>
  The counter of a track as the rewriter reads it: zero for a track that has none yet.
\<close>

definition counterOf :: "segmenter \<Rightarrow> nat \<Rightarrow> int" where
  "counterOf s t = (case trackTimestamps s t of None \<Rightarrow> 0 | Some c \<Rightarrow> c)"

subsection \<open>Relations and invariants of the proofs\<close>

text \<open>
  How the init version may move between two states of one segmenter: not at all once the
  init is complete, and by the single step taken at the moov otherwise, which is an
  increment unless the assembled init equals the previous init segment of the options.
\<close>

definition versionStep :: "segmenter \<Rightarrow> segmenter \<Rightarrow> bool" where
  "versionStep a b =
     (options b = options a \<and>
      (if hasInit a then hasInit b \<and> initVersion b = initVersion a \<and> initSegment b = initSegment a
       else if hasInit b then
         initSegment b \<noteq> None \<and>
         initVersion b = initVersion a + (if initSegment b = previousInitSegment (options a) then 0 else 1)
       else initVersion b = initVersion a))"




text \<open>
  Counters that only grow, baselines that stay, and what the segmenter holds about one
  track: counter, baseline, accumulated duration.
\<close>

definition countersGrow :: "segmenter \<Rightarrow> segmenter \<Rightarrow> bool" where
  "countersGrow a b = (\<forall>t. counterOf a t \<le> counterOf b t)"


definition trackView :: "nat \<Rightarrow> segmenter \<Rightarrow> int option \<times> int option \<times> int option" where
  "trackView t s = (trackTimestamps s t, trackExpectedDurations s t, map_of (segmentTrackDurations s) t)"

subsection \<open>Concrete inputs\<close>

text \<open>
  A configuration with a two-second target and a window of four segments. The stand-ins
  for the parsing helpers go by a moof's bytes: \<open>[0]\<close> is a moof whose only traf
  (track 1) sums to zero, \<open>[1]\<close> one that sums to 90000 units, \<open>[25]\<close> one that sums to
  2250000 units, and any other a moof whose tfhd is missing; the tfdt patch leaves the
  bytes as they are, and every moov declares track 1 with timescale 90000.
\<close>

definition plainEnv :: environment where
  "plainEnv =
     \<lparr> segmentDuration = 2,
       maxSegments = 4,
       parseMoovTimescales = (\<lambda>moov. Some [1 \<mapsto> 90000]),
       trafDurationsOf = (\<lambda>moof. if moof = [1] then Some [(1, 90000)]
                                  else if moof = [25] then Some [(1, 2250000)]
                                  else if moof = [0] then Some [(1, 0)]
                                  else None),
       patchTfdt = (\<lambda>moof stamps. moof),
       detectMoofKeyframe = (\<lambda>moof. Some None),
       parserPush = (\<lambda>residue chunk. ([], residue @ chunk, None)) \<rparr>"

definition box :: "string \<Rightarrow> bytes \<Rightarrow> MP4Box" where
  "box t d = \<lparr> type = t, data = d \<rparr>"

text \<open>
  The options of a fresh start, of a handoff at segment 3 with version 1, and of a
  handoff whose previous init is \<open>ftyp || moov = [9, 8]\<close>.
\<close>

definition freshOptions :: FMP4SegmenterOptions where
  "freshOptions =
     \<lparr> initialTrackTimestamps = None, optPendingDiscontinuity = None,
       previousInitSegment = None, startingInitVersion = None,
       startingSegmentIndex = None, streamId = 7 \<rparr>"

definition handoffOptions :: FMP4SegmenterOptions where
  "handoffOptions =
     \<lparr> initialTrackTimestamps = None, optPendingDiscontinuity = Some True,
       previousInitSegment = None, startingInitVersion = Some 1,
       startingSegmentIndex = Some 3, streamId = 7 \<rparr>"

definition identicalInitOptions :: FMP4SegmenterOptions where
  "identicalInitOptions =
     \<lparr> initialTrackTimestamps = None, optPendingDiscontinuity = Some True,
       previousInitSegment = Some [9, 8], startingInitVersion = Some 1,
       startingSegmentIndex = Some 4, streamId = 7 \<rparr>"

text \<open>
  A fresh segmenter after ftyp, moov and one moof and mdat: the init is stored, the
  fragment is buffered, and track 1 has its baseline and its counter at 90000. The
  handoff segmenter with the previous init, after its ftyp. A well-formed delivery, and
  media boxes delivered before any init.
\<close>

definition bufferedState :: segmenter where
  "bufferedState =
     run plainEnv (createFMP4Segmenter freshOptions 0)
       [(0, HandleBox (box ''ftyp'' [9])), (0, HandleBox (box ''moov'' [8])),
        (0, HandleBox (box ''moof'' [1])), (0, HandleBox (box ''mdat'' [5]))]"

definition awaitingMoov :: segmenter where
  "awaitingMoov = handleBox plainEnv 0 (box ''ftyp'' [9]) (createFMP4Segmenter identicalInitOptions 0)"



section \<open>Verified properties\<close>

subsection \<open>Playlist generation\<close>

lemma maxDurationFrom_Max:
  "maxDurationFrom env s i m = Max (insert m (durationAt env s ` {i..segmentIndex s - 1}))"
proof (induction env s i m rule: maxDurationFrom.induct)
  case (1 env s i m)
  show ?case
  proof (cases "i < segmentIndex s")
    case True
    have split: "{i..segmentIndex s - 1} = insert i {i + 1..segmentIndex s - 1}"
      using True by auto
    have "maxDurationFrom env s i m =
          maxDurationFrom env s (i + 1) (if durationAt env s i > m then durationAt env s i else m)"
      using True by (subst maxDurationFrom.simps) (simp add: Let_def)
    also have "\<dots> = Max (insert (if durationAt env s i > m then durationAt env s i else m)
                          (durationAt env s ` {i + 1..segmentIndex s - 1}))"
      using "1.IH" [OF True refl] by simp
    also have "\<dots> = Max (insert m (durationAt env s ` {i..segmentIndex s - 1}))"
      unfolding split
      by (cases "durationAt env s ` {i + 1..segmentIndex s - 1} = {}")
         (auto simp: max_def Max_insert)
    finally show ?thesis .
  next
    case False
    then show ?thesis by (subst maxDurationFrom.simps) simp
  qed
qed

lemma segmentLinesFrom_concat:
  "segmentLinesFrom env s i ls = ls @ concat (map (windowEntry env s) [i..segmentIndex s - 1])"
proof (induction env s i ls rule: segmentLinesFrom.induct)
  case (1 env s i ls)
  show ?case
  proof (cases "i < segmentIndex s")
    case True
    have unroll: "[i..segmentIndex s - 1] = i # [i + 1..segmentIndex s - 1]"
      using True by (simp add: upto_rec1)
    define pushed where "pushed = ls @ windowEntry env s i"
    have pushed_eq: "(if i \<in> discontinuityIndices s
                      then ls @ [''#EXT-X-DISCONTINUITY'', mapLine s] else ls)
                     @ [''#EXTINF:'' @ toFixed3 (durationAt env s i) @ '','',
                        ''segment'' @ String_int i @ ''.m4s''] = pushed"
      by (simp add: pushed_def windowEntry_def)
    have "segmentLinesFrom env s i ls = segmentLinesFrom env s (i + 1) pushed"
      using True by (subst segmentLinesFrom.simps) (simp only: Let_def pushed_eq if_True)
    also have "\<dots> = pushed @ concat (map (windowEntry env s) [i + 1..segmentIndex s - 1])"
      using "1.IH" [OF True refl refl] by (simp only: pushed_eq)
    also have "\<dots> = ls @ concat (map (windowEntry env s) [i..segmentIndex s - 1])"
      by (simp add: pushed_def unroll)
    finally show ?thesis .
  next
    case False
    then show ?thesis by (subst segmentLinesFrom.simps) simp
  qed
qed


lemma durations_with_default:
  "insert (segmentDuration env) (durationAt env s ` set w)
     = insert (segmentDuration env) (set (recordedDurations s w))"
  by (induction w) (auto simp: recordedDurations_def durationAt_def split: option.splits)

lemma upto_0_2: "[0::int..2] = [0, 1, 2]"
  by code_simp

lemma toFixed3_2: "toFixed3 2 = ''2.000''"
  by code_simp

lemma String_int_1: "String_int 1 = ''1''"
  by code_simp

lemma String_int_2: "String_int 2 = ''2''"
  by code_simp

text \<open>
  C10. A window index with no recorded media duration is listed with an EXTINF of the
  configured target segment duration, and the maximum behind
  \<^verbatim>\<open>#EXT-X-TARGETDURATION\<close> is the maximum of the target and the recorded durations
  only: an unrecorded index contributes the target itself.
\<close>

theorem C10_unrecorded_duration:
  assumes "i \<in> set (playlistWindow env s)" and "segmentDurations s i = None"
  shows "(\<exists>before after.
            playlistLines env s =
              before @ [''#EXTINF:'' @ toFixed3 (segmentDuration env) @ '','',
                        ''segment'' @ String_int i @ ''.m4s''] @ after)
         \<and> playlistLines env s ! 2 =
             ''#EXT-X-TARGETDURATION:'' @
               String_int \<lceil>Max (insert (segmentDuration env)
                                   (set (recordedDurations s (playlistWindow env s))))\<rceil>"
proof (rule conjI)
  let ?W = "playlistWindow env s"
  let ?hdr = "[''#EXTM3U'', ''#EXT-X-VERSION:7'',
      ''#EXT-X-TARGETDURATION:'' @ String_int \<lceil>windowMaxDuration env s\<rceil>,
      ''#EXT-X-MEDIA-SEQUENCE:'' @ String_int (max 0 (segmentIndex s - maxSegments env)),
      mapLine s]"
  have lines: "playlistLines env s = ?hdr @ concat (map (windowEntry env s) ?W) @ ['''']"
    by (simp add: playlistLines_def segmentLinesFrom_concat maxDurationFrom_Max
          playlistWindow_def windowMaxDuration_def Let_def)
  obtain w1 w2 where w: "?W = w1 @ i # w2"
    using assms(1) by (auto dest: split_list)
  have dur: "durationAt env s i = segmentDuration env"
    using assms(2) by (simp add: durationAt_def)
  define marker where
    "marker = (if i \<in> discontinuityIndices s then [''#EXT-X-DISCONTINUITY'', mapLine s] else [])"
  have entry: "windowEntry env s i =
      marker @ [''#EXTINF:'' @ toFixed3 (segmentDuration env) @ '','', ''segment'' @ String_int i @ ''.m4s'']"
    by (simp add: windowEntry_def dur marker_def)
  have "playlistLines env s =
      (?hdr @ concat (map (windowEntry env s) w1) @ marker)
      @ [''#EXTINF:'' @ toFixed3 (segmentDuration env) @ '','', ''segment'' @ String_int i @ ''.m4s'']
      @ (concat (map (windowEntry env s) w2) @ [''''])"
    unfolding lines w by (simp add: entry)
  then show "\<exists>before after.
           playlistLines env s =
             before @ [''#EXTINF:'' @ toFixed3 (segmentDuration env) @ '','',
                       ''segment'' @ String_int i @ ''.m4s''] @ after"
    by blast
  show "playlistLines env s ! 2 =
           ''#EXT-X-TARGETDURATION:'' @
             String_int \<lceil>Max (insert (segmentDuration env)
                                 (set (recordedDurations s (playlistWindow env s))))\<rceil>"
    unfolding lines by (simp add: windowMaxDuration_def durations_with_default)
qed

theorem C10_unrecorded_duration_witness:
  "1 \<in> set (playlistWindow plainEnv (createFMP4Segmenter handoffOptions 0))
   \<and> segmentDurations (createFMP4Segmenter handoffOptions 0) 1 = None
   \<and> (\<exists>before after. playlistLines plainEnv (createFMP4Segmenter handoffOptions 0) =
         before @ [''#EXTINF:2.000,'', ''segment1.m4s''] @ after)
   \<and> playlistLines plainEnv (createFMP4Segmenter handoffOptions 0) ! 2 = ''#EXT-X-TARGETDURATION:2''"
proof -
  have w: "playlistWindow plainEnv (createFMP4Segmenter handoffOptions 0) = [0, 1, 2]"
    by (simp add: playlistWindow_def plainEnv_def createFMP4Segmenter_def handoffOptions_def upto_0_2)
  have a: "1 \<in> set (playlistWindow plainEnv (createFMP4Segmenter handoffOptions 0))"
    by (simp add: w)
  have b: "segmentDurations (createFMP4Segmenter handoffOptions 0) 1 = None"
    by (simp add: createFMP4Segmenter_def)
  have t: "segmentDuration plainEnv = 2"
    by (simp add: plainEnv_def)
  have r: "recordedDurations (createFMP4Segmenter handoffOptions 0) [0, 1, 2] = []"
    by (simp add: recordedDurations_def createFMP4Segmenter_def)
  show ?thesis
    using C10_unrecorded_duration [OF a b] a b
    by (simp add: t w r toFixed3_2 String_int_1 String_int_2)
qed

subsection \<open>What each block leaves alone\<close>

lemma accumulateDuration_frame:
  "effects (accumulateDuration t d s) = effects s
   \<and> segmentIndex (accumulateDuration t d s) = segmentIndex s
   \<and> fragmentBuffer (accumulateDuration t d s) = fragmentBuffer s
   \<and> firstSegmentEmitted (accumulateDuration t d s) = firstSegmentEmitted s
   \<and> stopped (accumulateDuration t d s) = stopped s
   \<and> hasInit (accumulateDuration t d s) = hasInit s
   \<and> initVersion (accumulateDuration t d s) = initVersion s
   \<and> initSegment (accumulateDuration t d s) = initSegment s
   \<and> initBoxes (accumulateDuration t d s) = initBoxes s
   \<and> pendingDiscontinuity (accumulateDuration t d s) = pendingDiscontinuity s
   \<and> discontinuityIndices (accumulateDuration t d s) = discontinuityIndices s
   \<and> indeterminateCount (accumulateDuration t d s) = indeterminateCount s
   \<and> segmentDurations (accumulateDuration t d s) = segmentDurations s
   \<and> segmentStartTime (accumulateDuration t d s) = segmentStartTime s
   \<and> options (accumulateDuration t d s) = options s
   \<and> listeners (accumulateDuration t d s) = listeners s
   \<and> inputStream (accumulateDuration t d s) = inputStream s
   \<and> parserResidue (accumulateDuration t d s) = parserResidue s"
  by (simp add: accumulateDuration_def Let_def)

lemma checkTrafDuration_frame:
  "effects (checkTrafDuration t d s) = effects s
   \<and> segmentIndex (checkTrafDuration t d s) = segmentIndex s
   \<and> fragmentBuffer (checkTrafDuration t d s) = fragmentBuffer s
   \<and> firstSegmentEmitted (checkTrafDuration t d s) = firstSegmentEmitted s
   \<and> stopped (checkTrafDuration t d s) = stopped s
   \<and> hasInit (checkTrafDuration t d s) = hasInit s
   \<and> initVersion (checkTrafDuration t d s) = initVersion s
   \<and> initSegment (checkTrafDuration t d s) = initSegment s
   \<and> initBoxes (checkTrafDuration t d s) = initBoxes s
   \<and> pendingDiscontinuity (checkTrafDuration t d s) = pendingDiscontinuity s
   \<and> discontinuityIndices (checkTrafDuration t d s) = discontinuityIndices s
   \<and> indeterminateCount (checkTrafDuration t d s) = indeterminateCount s
   \<and> segmentDurations (checkTrafDuration t d s) = segmentDurations s
   \<and> segmentStartTime (checkTrafDuration t d s) = segmentStartTime s
   \<and> options (checkTrafDuration t d s) = options s
   \<and> listeners (checkTrafDuration t d s) = listeners s
   \<and> inputStream (checkTrafDuration t d s) = inputStream s
   \<and> parserResidue (checkTrafDuration t d s) = parserResidue s"
  by (simp add: checkTrafDuration_def accumulateDuration_frame Let_def split: option.splits)

lemma processTrafDurations_frame:
  "effects (processTrafDurations ds s) = effects s
   \<and> segmentIndex (processTrafDurations ds s) = segmentIndex s
   \<and> fragmentBuffer (processTrafDurations ds s) = fragmentBuffer s
   \<and> firstSegmentEmitted (processTrafDurations ds s) = firstSegmentEmitted s
   \<and> stopped (processTrafDurations ds s) = stopped s
   \<and> hasInit (processTrafDurations ds s) = hasInit s
   \<and> initVersion (processTrafDurations ds s) = initVersion s
   \<and> initSegment (processTrafDurations ds s) = initSegment s
   \<and> initBoxes (processTrafDurations ds s) = initBoxes s
   \<and> pendingDiscontinuity (processTrafDurations ds s) = pendingDiscontinuity s
   \<and> discontinuityIndices (processTrafDurations ds s) = discontinuityIndices s
   \<and> indeterminateCount (processTrafDurations ds s) = indeterminateCount s
   \<and> segmentDurations (processTrafDurations ds s) = segmentDurations s
   \<and> segmentStartTime (processTrafDurations ds s) = segmentStartTime s
   \<and> options (processTrafDurations ds s) = options s
   \<and> listeners (processTrafDurations ds s) = listeners s
   \<and> inputStream (processTrafDurations ds s) = inputStream s
   \<and> parserResidue (processTrafDurations ds s) = parserResidue s"
proof (induction ds arbitrary: s)
  case Nil
  show ?case by simp
next
  case (Cons p ds)
  obtain t d where p: "p = (t, d)" by (cases p)
  show ?case
    unfolding p processTrafDurations.simps
    using Cons.IH [of "checkTrafDuration t d s"] checkTrafDuration_frame [of t d s]
    by simp
qed

lemma rewriteAndCheck_frame:
  "effects (fst (rewriteAndCheck env b s)) = effects s
   \<and> segmentIndex (fst (rewriteAndCheck env b s)) = segmentIndex s
   \<and> fragmentBuffer (fst (rewriteAndCheck env b s)) = fragmentBuffer s
   \<and> firstSegmentEmitted (fst (rewriteAndCheck env b s)) = firstSegmentEmitted s
   \<and> stopped (fst (rewriteAndCheck env b s)) = stopped s
   \<and> hasInit (fst (rewriteAndCheck env b s)) = hasInit s
   \<and> initVersion (fst (rewriteAndCheck env b s)) = initVersion s
   \<and> initSegment (fst (rewriteAndCheck env b s)) = initSegment s
   \<and> initBoxes (fst (rewriteAndCheck env b s)) = initBoxes s
   \<and> pendingDiscontinuity (fst (rewriteAndCheck env b s)) = pendingDiscontinuity s
   \<and> discontinuityIndices (fst (rewriteAndCheck env b s)) = discontinuityIndices s
   \<and> indeterminateCount (fst (rewriteAndCheck env b s)) = indeterminateCount s
   \<and> segmentDurations (fst (rewriteAndCheck env b s)) = segmentDurations s
   \<and> segmentStartTime (fst (rewriteAndCheck env b s)) = segmentStartTime s
   \<and> options (fst (rewriteAndCheck env b s)) = options s
   \<and> listeners (fst (rewriteAndCheck env b s)) = listeners s
   \<and> inputStream (fst (rewriteAndCheck env b s)) = inputStream s
   \<and> parserResidue (fst (rewriteAndCheck env b s)) = parserResidue s"
  by (simp add: rewriteAndCheck_def processTrafDurations_frame split: option.splits prod.splits)

lemma keyframeDiagnostics_off: "keyframeDiagnostics env now moof s = s"
  by (simp add: keyframeDiagnostics_def KEYFRAME_DEBUG_def)

lemma handleMoof_unfold:
  "handleMoof env now b s =
     (fst (rewriteAndCheck env b (cutBeforeMoof env now s)))
       \<lparr> fragmentBuffer := fragmentBuffer (fst (rewriteAndCheck env b (cutBeforeMoof env now s)))
                             @ [snd (rewriteAndCheck env b (cutBeforeMoof env now s))] \<rparr>"
  by (simp add: handleMoof_def keyframeDiagnostics_off split: prod.splits)

lemma cutBeforeMoof_cutDue:
  "cutBeforeMoof env now s = (if cutDue env now s then outputSegment env now s else s)"
  by (auto simp: cutBeforeMoof_def cutDue_def Let_def)

lemma outputSegment_empty: "fragmentBuffer s = [] \<Longrightarrow> outputSegment env now s = s"
  by (simp add: outputSegment_def)

lemma outputSegment_effects:
  "fragmentBuffer s \<noteq> [] \<Longrightarrow>
   \<exists>playlist. effects (outputSegment env now s) =
     effects s @ [StoreSegment (streamId (options s)) (''segment'' @ String_int (segmentIndex s) @ ''.m4s'')
                    (concat (fragmentBuffer s)),
                  UpdatePlaylist (streamId (options s)) playlist]"
  by (simp add: outputSegment_def Let_def resetSegmentTracking_def)

lemma outputSegment_segmentIndex:
  "fragmentBuffer s \<noteq> [] \<Longrightarrow> segmentIndex (outputSegment env now s) = segmentIndex s + 1"
  by (simp add: outputSegment_def Let_def resetSegmentTracking_def)

subsection \<open>The concrete states\<close>

lemma bufferedState_eq:
  "bufferedState =
     (createFMP4Segmenter freshOptions 0)
       \<lparr> fragmentBuffer := [[1], [5]], hasInit := True, initBoxes := [[9], [8]],
         initSegment := Some [9, 8], initVersion := 1, segmentTrackDurations := [(1, 90000)],
         trackExpectedDurations := [1 \<mapsto> 90000], trackTimescales := [1 \<mapsto> 90000],
         trackTimestamps := [1 \<mapsto> 90000], effects := [StoreInitSegment 7 [9, 8]] \<rparr>"
  by (simp add: bufferedState_def run_def handleBox_def handleInitBox_def handleMoof_def
        cutBeforeMoof_def rewriteAndCheck_def rewriteMoofTimestamps_def keyframeDiagnostics_def
        KEYFRAME_DEBUG_def checkTrafDuration_def accumulateDuration_def box_def plainEnv_def
        createFMP4Segmenter_def freshOptions_def Let_def)

lemma bufferedState_facts:
  "\<not> stopped bufferedState"
  "fragmentBuffer bufferedState = [[1], [5]]"
  "effects bufferedState = [StoreInitSegment 7 [9, 8]]"
  "streamId (options bufferedState) = 7"
  "segmentIndex bufferedState = 0"
  "\<not> firstSegmentEmitted bufferedState"
  "listeners bufferedState = []"
  "trackExpectedDurations bufferedState 1 = Some 90000"
  "counterOf bufferedState 1 = 90000"
  "indeterminateCount bufferedState = 0"
  by (simp_all add: bufferedState_eq createFMP4Segmenter_def freshOptions_def counterOf_def)

lemma box_facts: "type (box t d) = t" "data (box t d) = d"
  by (simp_all add: box_def)

lemma plainEnv_trafs:
  "trafDurationsOf plainEnv [1] = Some [(1, 90000)]"
  "trafDurationsOf plainEnv [25] = Some [(1, 2250000)]"
  "trafDurationsOf plainEnv [0] = Some [(1, 0)]"
  "trafDurationsOf plainEnv [255] = None"
  by (simp_all add: plainEnv_def)

lemma String_int_0: "String_int 0 = ''0''"
  by code_simp

subsection \<open>Segment-cut policy\<close>



lemma outputSegment_frame:
  "stopped (outputSegment env now s) = stopped s
   \<and> hasInit (outputSegment env now s) = hasInit s
   \<and> initVersion (outputSegment env now s) = initVersion s
   \<and> initSegment (outputSegment env now s) = initSegment s
   \<and> initBoxes (outputSegment env now s) = initBoxes s
   \<and> trackTimestamps (outputSegment env now s) = trackTimestamps s
   \<and> trackExpectedDurations (outputSegment env now s) = trackExpectedDurations s
   \<and> trackTimescales (outputSegment env now s) = trackTimescales s
   \<and> zeroDurationWarned (outputSegment env now s) = zeroDurationWarned s
   \<and> indeterminateCount (outputSegment env now s) = indeterminateCount s
   \<and> options (outputSegment env now s) = options s
   \<and> listeners (outputSegment env now s) = listeners s
   \<and> inputStream (outputSegment env now s) = inputStream s
   \<and> parserResidue (outputSegment env now s) = parserResidue s"
  by (simp add: outputSegment_def Let_def resetSegmentTracking_def)

subsection \<open>Lifting a relation from the handlers to every run\<close>

lemma handleData_related:
  assumes refl: "\<And>s. R s s"
    and trans: "\<And>a b c. R a b \<Longrightarrow> R b c \<Longrightarrow> R a c"
    and bx: "\<And>now b s. R s (handleBox env now b s)"
    and res: "\<And>r s. R s (s\<lparr> parserResidue := r \<rparr>)"
    and err: "\<And>e s. R s (s\<lparr> effects := effects s @ [OnError e] \<rparr>)"
  shows "R s (handleData env now chunk s)"
proof -
  have fold: "R s0 (foldl (\<lambda>st b. handleBox env now b st) s0 bs)" for s0 bs
  proof (induction bs arbitrary: s0)
    case Nil
    show ?case by (simp add: refl)
  next
    case (Cons b bs)
    show ?case
      using trans [OF bx [of s0 now b] Cons.IH [of "handleBox env now b s0"]] by simp
  qed
  show ?thesis
  proof (cases "stopped s")
    case True
    then show ?thesis by (simp add: handleData_def refl)
  next
    case False
    obtain boxes residue thrown where pp: "parserPush env (parserResidue s) chunk = (boxes, residue, thrown)"
      by (cases "parserPush env (parserResidue s) chunk") auto
    let ?s1 = "foldl (\<lambda>st b. handleBox env now b st) (s\<lparr> parserResidue := residue \<rparr>) boxes"
    have r1: "R s ?s1"
      using trans [OF res [of s residue] fold [of "s\<lparr> parserResidue := residue \<rparr>" boxes]] .
    show ?thesis
    proof (cases thrown)
      case None
      then show ?thesis using False pp r1 by (simp add: handleData_def)
    next
      case (Some e)
      then show ?thesis
        using False pp trans [OF r1 err [of ?s1 e]] by (simp add: handleData_def Let_def)
    qed
  qed
qed

lemma funpow_related:
  assumes refl: "\<And>s. R s s"
    and trans: "\<And>a b c. R a b \<Longrightarrow> R b c \<Longrightarrow> R a c"
    and h: "\<And>s. R s (f s)"
  shows "R s ((f ^^ n) s)"
proof (induction n)
  case 0
  show ?case by (simp add: refl)
next
  case (Suc n)
  show ?case using trans [OF Suc.IH h [of "(f ^^ n) s"]] by simp
qed

lemma run_related:
  assumes refl: "\<And>s. R s s"
    and trans: "\<And>a b c. R a b \<Longrightarrow> R b c \<Longrightarrow> R a c"
    and bx: "\<And>now b s. R s (handleBox env now b s)"
    and res: "\<And>r s. R s (s\<lparr> parserResidue := r \<rparr>)"
    and err: "\<And>e s. R s (s\<lparr> effects := effects s @ [OnError e] \<rparr>)"
    and en: "\<And>now s. R s (handleEnd env now s)"
    and he: "\<And>e s. R s (handleError e s)"
    and md: "\<And>now s. R s (markDiscontinuity env now s)"
    and pi: "\<And>stream s. R s (pipe stream s)"
    and st: "\<And>s. R s (stop s)"
  shows "R s (run env s calls)"
proof -
  have hd: "R s0 (handleData env now chunk s0)" for s0 now chunk
    by (rule handleData_related [of R, OF refl trans bx res err])
  have hnd: "R s0 (handlerOf env now ev s0)" for s0 now ev
    by (cases ev) (simp_all add: hd en he)
  have em: "R s0 (emit env now stream ev s0)" for s0 now stream ev
    unfolding emit_def by (rule funpow_related [of R, OF refl trans hnd])
  have stp: "R s0 (step env s0 c)" for s0 c
  proof -
    obtain now cl where c: "c = (now, cl)" by (cases c)
    show ?thesis unfolding c by (cases cl) (simp_all add: bx md pi st em)
  qed
  have "R s0 (foldl (step env) s0 calls)" for s0
  proof (induction calls arbitrary: s0)
    case Nil
    show ?case by (simp add: refl)
  next
    case (Cons c cs)
    show ?case using trans [OF stp [of s0 c] Cons.IH [of "step env s0 c"]] by simp
  qed
  then show ?thesis by (simp add: run_def)
qed

subsection \<open>Init versioning\<close>

lemma versionStep_refl: "versionStep s s"
  by (simp add: versionStep_def)

lemma versionStep_trans: "versionStep a b \<Longrightarrow> versionStep b c \<Longrightarrow> versionStep a c"
  by (auto simp: versionStep_def split: if_splits)

lemma handleInitBox_version:
  "\<not> hasInit s \<Longrightarrow> versionStep s (handleInitBox env b s)"
  by (auto simp: versionStep_def handleInitBox_def Let_def split: option.splits)

lemma handleMoof_version: "versionStep s (handleMoof env now b s)"
  by (simp add: versionStep_def handleMoof_unfold rewriteAndCheck_frame cutBeforeMoof_cutDue
        outputSegment_frame)

lemma handleBox_version: "versionStep s (handleBox env now b s)"
  by (simp add: handleBox_def handleInitBox_version handleMoof_version versionStep_refl)
     (simp add: versionStep_def)

lemma run_version: "versionStep s (run env s calls)"
proof (rule run_related [of versionStep])
  show "versionStep st st" for st by (rule versionStep_refl)
  show "versionStep a b \<Longrightarrow> versionStep b c \<Longrightarrow> versionStep a c" for a b c
    by (rule versionStep_trans)
  show "versionStep st (handleBox env now b st)" for now b st by (rule handleBox_version)
  show "versionStep st (st\<lparr> parserResidue := r \<rparr>)" for r st by (simp add: versionStep_def)
  show "versionStep st (st\<lparr> effects := effects st @ [OnError e] \<rparr>)" for e st
    by (simp add: versionStep_def)
  show "versionStep st (handleEnd env now st)" for now st
    by (simp add: versionStep_def handleEnd_def parserFlush_def outputSegment_frame Let_def)
  show "versionStep st (handleError e st)" for e st
    by (simp add: versionStep_def handleError_def parserFlush_def Let_def)
  show "versionStep st (markDiscontinuity env now st)" for now st
    by (simp add: versionStep_def markDiscontinuity_def outputSegment_frame)
  show "versionStep st (pipe stream st)" for stream st
    by (simp add: versionStep_def pipe_def)
  show "versionStep st (stop st)" for st
    by (simp add: versionStep_def stop_def parserFlush_def Let_def split: option.splits)
qed

lemma handleBox_initVersion:
  "initVersion (handleBox env now b s) =
     (if \<not> stopped s \<and> \<not> hasInit s \<and> type b = ''moov'' \<and>
         (case previousInitSegment (options s) of
            None \<Rightarrow> True
          | Some previous \<Rightarrow> concat (initBoxes s @ [data b]) \<noteq> previous)
      then initVersion s + 1 else initVersion s)"
proof -
  have moof: "initVersion (handleMoof env now b s) = initVersion s"
    by (simp add: handleMoof_unfold rewriteAndCheck_frame cutBeforeMoof_cutDue outputSegment_frame)
  show ?thesis
    by (simp add: handleBox_def moof)
       (simp add: handleInitBox_def Let_def split: option.splits)
qed

text \<open>
  C5. The init version starts from \<^verbatim>\<open>startingInitVersion\<close>, or 0 without one. Over any
  run of calls it never decreases and rises by at most one; it does not move once the
  init is complete; a run that completes the init leaves it one higher unless the
  assembled init equals \<^verbatim>\<open>previousInitSegment\<close>, in which case it is unchanged. The only
  call that moves it is the handling of a moov before the init is complete, on a
  segmenter that is not stopped, when the assembled bytes differ from the previous init
  or there is none. A segmenter seeded with the version of its predecessor never falls
  below it.
\<close>

theorem C5_init_versioning:
  "initVersion (createFMP4Segmenter opts t0) = (case startingInitVersion opts of None \<Rightarrow> 0 | Some v \<Rightarrow> v)
   \<and> initVersion s \<le> initVersion (run env s calls)
   \<and> initVersion (run env s calls) \<le> initVersion s + 1
   \<and> (hasInit s \<longrightarrow> initVersion (run env s calls) = initVersion s)
   \<and> (\<not> hasInit s \<and> hasInit (run env s calls) \<longrightarrow>
        initVersion (run env s calls) =
          initVersion s + (if getInitSegment (run env s calls) = previousInitSegment (options s) then 0 else 1))
   \<and> (\<not> hasInit s \<and> hasInit (run env s calls) \<and> previousInitSegment (options s) = None \<longrightarrow>
        initVersion (run env s calls) = initVersion s + 1)
   \<and> initVersion (handleBox env now b s) =
        (if \<not> stopped s \<and> \<not> hasInit s \<and> type b = ''moov'' \<and>
            (case previousInitSegment (options s) of
               None \<Rightarrow> True
             | Some previous \<Rightarrow> concat (initBoxes s @ [data b]) \<noteq> previous)
         then initVersion s + 1 else initVersion s)
   \<and> (startingInitVersion opts = Some (getInitVersion old) \<longrightarrow>
        getInitVersion old \<le> getInitVersion (run env (createFMP4Segmenter opts t0) calls))"
proof -
  have r: "versionStep s (run env s calls)" by (rule run_version)
  have r0: "versionStep (createFMP4Segmenter opts t0) (run env (createFMP4Segmenter opts t0) calls)"
    by (rule run_version)
  have c: "initVersion (createFMP4Segmenter opts t0) = (case startingInitVersion opts of None \<Rightarrow> 0 | Some v \<Rightarrow> v)"
    by (simp add: createFMP4Segmenter_def)
  have h: "startingInitVersion opts = Some (getInitVersion old) \<longrightarrow>
        getInitVersion old \<le> getInitVersion (run env (createFMP4Segmenter opts t0) calls)"
    using r0 c by (auto simp: versionStep_def getInitVersion_def split: if_splits)
  show ?thesis
    using r c h handleBox_initVersion [of env now b s]
    by (auto simp: versionStep_def getInitSegment_def split: if_splits)
qed

theorem C5_init_versioning_witness:
  "initVersion (createFMP4Segmenter freshOptions 0) = 0
   \<and> initVersion (run plainEnv (createFMP4Segmenter freshOptions 0)
        [(0, HandleBox (box ''ftyp'' [9])), (0, HandleBox (box ''moov'' [8]))]) = 1
   \<and> initVersion (run plainEnv (createFMP4Segmenter handoffOptions 0)
        [(0, HandleBox (box ''ftyp'' [9])), (0, HandleBox (box ''moov'' [8]))]) = 2"
proof -
  let ?calls = "[(0, HandleBox (box ''ftyp'' [9])), (0, HandleBox (box ''moov'' [8]))]"
  have a: "\<not> hasInit (createFMP4Segmenter freshOptions 0)"
       "\<not> hasInit (createFMP4Segmenter handoffOptions 0)"
    by (simp_all add: createFMP4Segmenter_def)
  have b: "hasInit (run plainEnv (createFMP4Segmenter freshOptions 0) ?calls)"
          "hasInit (run plainEnv (createFMP4Segmenter handoffOptions 0) ?calls)"
    by (simp_all add: run_def handleBox_def handleInitBox_def box_def createFMP4Segmenter_def Let_def
          plainEnv_def freshOptions_def handoffOptions_def)
  have p: "previousInitSegment (options (createFMP4Segmenter freshOptions 0)) = None"
          "previousInitSegment (options (createFMP4Segmenter handoffOptions 0)) = None"
    by (simp_all add: createFMP4Segmenter_def freshOptions_def handoffOptions_def)
  have v: "initVersion (createFMP4Segmenter freshOptions 0) = 0"
          "initVersion (createFMP4Segmenter handoffOptions 0) = 1"
    by (simp_all add: createFMP4Segmenter_def freshOptions_def handoffOptions_def)
  have f: "initVersion (run plainEnv (createFMP4Segmenter freshOptions 0) ?calls)
             = initVersion (createFMP4Segmenter freshOptions 0) + 1"
    using C5_init_versioning [of freshOptions 0 "createFMP4Segmenter freshOptions 0" plainEnv ?calls]
          a(1) b(1) p(1)
    by blast
  have h: "initVersion (run plainEnv (createFMP4Segmenter handoffOptions 0) ?calls)
             = initVersion (createFMP4Segmenter handoffOptions 0) + 1"
    using C5_init_versioning [of handoffOptions 0 "createFMP4Segmenter handoffOptions 0" plainEnv ?calls]
          a(2) b(2) p(2)
    by blast
  show ?thesis
    using f h v by simp
qed

subsection \<open>Discontinuities\<close>

lemma outputSegment_discontinuity:
  "fragmentBuffer s \<noteq> [] \<Longrightarrow>
   discontinuityIndices (outputSegment env now s) =
     (if pendingDiscontinuity s then insert (segmentIndex s) (discontinuityIndices s)
      else discontinuityIndices s)
   \<and> \<not> pendingDiscontinuity (outputSegment env now s)
   \<and> fragmentBuffer (outputSegment env now s) = []"
  by (simp add: outputSegment_def Let_def resetSegmentTracking_def)

lemma handleBox_discontinuity:
  "discontinuityIndices (handleBox env now b s) =
     (if segmentIndex (handleBox env now b s) \<noteq> segmentIndex s \<and> pendingDiscontinuity s
      then insert (segmentIndex s) (discontinuityIndices s) else discontinuityIndices s)
   \<and> pendingDiscontinuity (handleBox env now b s) =
     (pendingDiscontinuity s \<and> segmentIndex (handleBox env now b s) = segmentIndex s
      \<and> \<not> (\<not> stopped s \<and> \<not> hasInit s \<and> type b = ''moov''
           \<and> previousInitSegment (options s) = Some (concat (initBoxes s @ [data b]))))"
proof -
  have moof: "discontinuityIndices (handleMoof env now b s) =
     (if segmentIndex (handleMoof env now b s) \<noteq> segmentIndex s \<and> pendingDiscontinuity s
      then insert (segmentIndex s) (discontinuityIndices s) else discontinuityIndices s)
   \<and> pendingDiscontinuity (handleMoof env now b s) =
     (pendingDiscontinuity s \<and> segmentIndex (handleMoof env now b s) = segmentIndex s)"
    by (simp add: handleMoof_unfold rewriteAndCheck_frame cutBeforeMoof_cutDue
          outputSegment_discontinuity outputSegment_segmentIndex cutDue_def)
  have init: "discontinuityIndices (handleInitBox env b s) = discontinuityIndices s
    \<and> segmentIndex (handleInitBox env b s) = segmentIndex s
    \<and> pendingDiscontinuity (handleInitBox env b s) =
        (pendingDiscontinuity s \<and>
         \<not> (type b = ''moov'' \<and> previousInitSegment (options s) = Some (concat (initBoxes s @ [data b]))))"
    by (auto simp: handleInitBox_def Let_def split: option.splits)
  show ?thesis
    using moof init
    by (simp add: handleBox_def)
qed

text \<open>
  C6. On a segmenter that is not stopped, \<^verbatim>\<open>markDiscontinuity\<close> first stores the
  buffered fragments, if any, as the next segment and then leaves
  \<open>pendingDiscontinuity\<close> set with an empty buffer. While the flag is set, a box that
  emits a segment adds that segment's index to \<open>discontinuityIndices\<close> and clears the
  flag, and a box that emits none keeps the flag and the set, unless it is the moov
  that completes an init byte-identical to the previous one: that moov clears the flag
  and marks no segment.
\<close>

theorem C6_discontinuity_lifecycle:
  assumes "\<not> stopped s"
  shows "markDiscontinuity env now s = (outputSegment env now s)\<lparr> pendingDiscontinuity := True \<rparr>
   \<and> pendingDiscontinuity (markDiscontinuity env now s)
   \<and> fragmentBuffer (markDiscontinuity env now s) = []
   \<and> (fragmentBuffer s \<noteq> [] \<longrightarrow>
        (\<exists>playlist. effects (markDiscontinuity env now s) =
           effects s @ [StoreSegment (streamId (options s))
                          (''segment'' @ String_int (segmentIndex s) @ ''.m4s'')
                          (concat (fragmentBuffer s)),
                        UpdatePlaylist (streamId (options s)) playlist]))
   \<and> (fragmentBuffer s = [] \<longrightarrow> effects (markDiscontinuity env now s) = effects s)
   \<and> (pendingDiscontinuity s \<and> fragmentBuffer s \<noteq> [] \<longrightarrow>
        discontinuityIndices (outputSegment env now s) = insert (segmentIndex s) (discontinuityIndices s)
        \<and> \<not> pendingDiscontinuity (outputSegment env now s))
   \<and> (pendingDiscontinuity s \<and> segmentIndex (handleBox env now b s) \<noteq> segmentIndex s \<longrightarrow>
        discontinuityIndices (handleBox env now b s) = insert (segmentIndex s) (discontinuityIndices s)
        \<and> \<not> pendingDiscontinuity (handleBox env now b s))
   \<and> (pendingDiscontinuity s \<and> segmentIndex (handleBox env now b s) = segmentIndex s
        \<and> (hasInit s \<or> type b \<noteq> ''moov'') \<longrightarrow>
        pendingDiscontinuity (handleBox env now b s)
        \<and> discontinuityIndices (handleBox env now b s) = discontinuityIndices s)
   \<and> (\<not> hasInit s \<and> type b = ''moov''
        \<and> previousInitSegment (options s) = Some (concat (initBoxes s @ [data b])) \<longrightarrow>
        \<not> pendingDiscontinuity (handleBox env now b s)
        \<and> discontinuityIndices (handleBox env now b s) = discontinuityIndices s)"
proof -
  have m: "markDiscontinuity env now s = (outputSegment env now s)\<lparr> pendingDiscontinuity := True \<rparr>"
    using assms by (simp add: markDiscontinuity_def)
  have buf: "fragmentBuffer (outputSegment env now s) = []"
    by (cases "fragmentBuffer s = []") (simp_all add: outputSegment_empty outputSegment_discontinuity)
  have box: "segmentIndex (handleBox env now b s) = segmentIndex s"
    if "\<not> hasInit s" "type b = ''moov''"
    using that assms by (simp add: handleBox_def handleInitBox_def Let_def split: option.splits)
  show ?thesis
    unfolding m
    using outputSegment_effects [of s env now] outputSegment_discontinuity [of s env now]
          handleBox_discontinuity [of env now b s] assms buf box
    by (auto simp: outputSegment_empty)
qed

theorem C6_discontinuity_lifecycle_witness:
  "\<not> stopped bufferedState
   \<and> pendingDiscontinuity (markDiscontinuity plainEnv 5 bufferedState)
   \<and> (\<exists>playlist. effects (markDiscontinuity plainEnv 5 bufferedState) =
         [StoreInitSegment 7 [9, 8], StoreSegment 7 ''segment0.m4s'' [1, 5], UpdatePlaylist 7 playlist])
   \<and> \<not> stopped awaitingMoov \<and> pendingDiscontinuity awaitingMoov
   \<and> \<not> pendingDiscontinuity (handleBox plainEnv 0 (box ''moov'' [8]) awaitingMoov)
   \<and> discontinuityIndices (handleBox plainEnv 0 (box ''moov'' [8]) awaitingMoov) = {}"
proof -
  have nb: "fragmentBuffer bufferedState \<noteq> []"
    by (simp add: bufferedState_facts)
  have aw: "awaitingMoov = (createFMP4Segmenter identicalInitOptions 0)\<lparr> initBoxes := [[9]] \<rparr>"
    by (simp add: awaitingMoov_def handleBox_def handleInitBox_def box_def createFMP4Segmenter_def Let_def)
  have b: "\<not> stopped awaitingMoov" "pendingDiscontinuity awaitingMoov" "\<not> hasInit awaitingMoov"
      "discontinuityIndices awaitingMoov = {}"
    by (simp_all add: aw createFMP4Segmenter_def identicalInitOptions_def)
  have c: "type (box ''moov'' [8]) = ''moov''"
      "previousInitSegment (options awaitingMoov) = Some (concat (initBoxes awaitingMoov @ [data (box ''moov'' [8])]))"
    by (simp_all add: aw box_def createFMP4Segmenter_def identicalInitOptions_def)
  have m: "pendingDiscontinuity (markDiscontinuity plainEnv 5 bufferedState)
     \<and> (\<exists>playlist. effects (markDiscontinuity plainEnv 5 bufferedState) =
         effects bufferedState @ [StoreSegment (streamId (options bufferedState))
            (''segment'' @ String_int (segmentIndex bufferedState) @ ''.m4s'')
            (concat (fragmentBuffer bufferedState)), UpdatePlaylist (streamId (options bufferedState)) playlist])"
    using C6_discontinuity_lifecycle [OF bufferedState_facts(1), of plainEnv 5] nb by blast
  have i: "\<not> pendingDiscontinuity (handleBox plainEnv 0 (box ''moov'' [8]) awaitingMoov)
     \<and> discontinuityIndices (handleBox plainEnv 0 (box ''moov'' [8]) awaitingMoov) = discontinuityIndices awaitingMoov"
    using C6_discontinuity_lifecycle [OF b(1), of plainEnv 0 "box ''moov'' [8]"] b(3) c by blast
  show ?thesis
    using b m i by (simp add: bufferedState_facts String_int_0)
qed

subsection \<open>Stopping\<close>








subsection \<open>Init before media\<close>






























subsection \<open>Track counters\<close>

lemma map_of_mapSet: "map_of (mapSet k v l) = (map_of l)(k \<mapsto> v)"
  by (induction l) (auto simp: fun_eq_iff)

lemma in_keys: "(a, b) \<in> set l \<Longrightarrow> a \<in> fst ` set l"
  by force

lemma set_mapSet:
  "distinct (map fst l) \<Longrightarrow> (a, b) \<in> set (mapSet k v l) \<Longrightarrow>
   (a, b) = (k, v) \<or> ((a, b) \<in> set l \<and> a \<noteq> k)"
  by (induction l) (auto split: if_splits dest: in_keys)

lemma mapSet_absent: "k \<notin> fst ` set l \<Longrightarrow> mapSet k v l = l @ [(k, v)]"
  by (induction l) auto

lemma keys_mapSet:
  "map fst (mapSet k v l) = (if k \<in> set (map fst l) then map fst l else map fst l @ [k])"
  by (induction l) (auto dest: in_keys)

lemma distinct_mapSet: "distinct (map fst l) \<Longrightarrow> distinct (map fst (mapSet k v l))"
  by (simp add: keys_mapSet)



lemma abnormalDuration_pos: "abnormalDuration e d \<Longrightarrow> 0 < e"
  by (simp add: abnormalDuration_def)

text \<open>The rewriter, with its accumulators generalised.\<close>

lemma rewriteTrafs_invariant:
  assumes "rewriteTrafs trafs c st du = (c', st', du')"
    and "distinct (map fst du)"
    and "\<forall>t. base t \<le> (case c t of None \<Rightarrow> 0 | Some x \<Rightarrow> x)"
    and "\<forall>(t, d) \<in> set du. 0 \<le> d \<and> c t \<noteq> None \<and> base t + d \<le> (case c t of None \<Rightarrow> 0 | Some x \<Rightarrow> x)"
  shows "distinct (map fst du')
    \<and> (\<forall>t. base t \<le> (case c' t of None \<Rightarrow> 0 | Some x \<Rightarrow> x))
    \<and> (\<forall>(t, d) \<in> set du'. 0 \<le> d \<and> c' t \<noteq> None \<and> base t + d \<le> (case c' t of None \<Rightarrow> 0 | Some x \<Rightarrow> x))"
  using assms
proof (induction trafs arbitrary: c st du)
  case Nil
  then show ?case by simp
next
  case (Cons p trafs)
  obtain t n where p: "p = (t, n)" by (cases p)
  let ?cur = "case c t of None \<Rightarrow> 0 | Some x \<Rightarrow> x"
  let ?c1 = "c(t \<mapsto> ?cur + int n)"
  let ?du1 = "mapSet t (int n) du"
  have run: "rewriteTrafs trafs ?c1 (st @ [(t, ?cur)]) ?du1 = (c', st', du')"
    using Cons.prems(1) by (simp add: p Let_def)
  have d1: "distinct (map fst ?du1)" using Cons.prems(2) by (rule distinct_mapSet)
  have b1: "\<forall>u. base u \<le> (case ?c1 u of None \<Rightarrow> 0 | Some x \<Rightarrow> x)"
  proof
    fix u
    show "base u \<le> (case ?c1 u of None \<Rightarrow> 0 | Some x \<Rightarrow> x)"
      using Cons.prems(3) [rule_format, of u] by (cases "u = t") auto
  qed
  have e1: "\<forall>(u, d) \<in> set ?du1. 0 \<le> d \<and> ?c1 u \<noteq> None
              \<and> base u + d \<le> (case ?c1 u of None \<Rightarrow> 0 | Some x \<Rightarrow> x)"
  proof (clarify)
    fix u d
    assume m: "(u, d) \<in> set ?du1"
    then have "(u, d) = (t, int n) \<or> ((u, d) \<in> set du \<and> u \<noteq> t)"
      using set_mapSet [OF Cons.prems(2)] by blast
    then show "0 \<le> d \<and> ?c1 u \<noteq> None \<and> base u + d \<le> (case ?c1 u of None \<Rightarrow> 0 | Some x \<Rightarrow> x)"
    proof
      assume "(u, d) = (t, int n)"
      then show ?thesis using Cons.prems(3) [rule_format, of t] by auto
    next
      assume "(u, d) \<in> set du \<and> u \<noteq> t"
      then show ?thesis using Cons.prems(4) by auto
    qed
  qed
  show ?case by (rule Cons.IH [OF run d1 b1 e1])
qed

lemma checkTrafDuration_counter_same:
  assumes "lo + d \<le> counterOf s t" and "0 \<le> d"
  shows "lo \<le> counterOf (checkTrafDuration t d s) t"
  using assms
  by (auto simp: checkTrafDuration_def counterOf_def accumulateDuration_def Let_def
        split: option.splits dest!: abnormalDuration_pos)

lemma checkTrafDuration_counter_other:
  "u \<noteq> t \<Longrightarrow> counterOf (checkTrafDuration t d s) u = counterOf s u"
  by (auto simp: checkTrafDuration_def counterOf_def accumulateDuration_def Let_def
        split: option.splits)

lemma processTrafDurations_counters:
  assumes "distinct (map fst ds)"
    and "\<forall>t. base t \<le> counterOf s t"
    and "\<forall>(t, d) \<in> set ds. 0 \<le> d \<and> base t + d \<le> counterOf s t"
  shows "\<forall>t. base t \<le> counterOf (processTrafDurations ds s) t"
  using assms
proof (induction ds arbitrary: s)
  case Nil
  then show ?case by simp
next
  case (Cons p ds)
  obtain t d where p: "p = (t, d)" by (cases p)
  let ?s1 = "checkTrafDuration t d s"
  have hd: "0 \<le> d" "base t + d \<le> counterOf s t" using Cons.prems(3) by (auto simp: p)
  have a: "\<forall>u. base u \<le> counterOf ?s1 u"
  proof
    fix u
    show "base u \<le> counterOf ?s1 u"
      using checkTrafDuration_counter_same [OF hd(2) hd(1)] checkTrafDuration_counter_other [of u t d s]
            Cons.prems(2)
      by (cases "u = t") auto
  qed
  have b: "\<forall>(u, e) \<in> set ds. 0 \<le> e \<and> base u + e \<le> counterOf ?s1 u"
  proof (clarify)
    fix u e
    assume m: "(u, e) \<in> set ds"
    then have "u \<noteq> t" using Cons.prems(1) by (auto simp: p dest: in_keys)
    then show "0 \<le> e \<and> base u + e \<le> counterOf ?s1 u"
      using checkTrafDuration_counter_other [of u t d s] Cons.prems(3) m by (auto simp: p)
  qed
  have "distinct (map fst ds)" using Cons.prems(1) by simp
  from Cons.IH [OF this a b] show ?case by (simp add: p)
qed

lemma rewriteAndCheck_counters: "counterOf s t \<le> counterOf (fst (rewriteAndCheck env b s)) t"
proof (cases "trafDurationsOf env (data b)")
  case None
  then show ?thesis by (simp add: rewriteAndCheck_def rewriteMoofTimestamps_def)
next
  case (Some trafs)
  obtain c' st' du' where r: "rewriteTrafs trafs (trackTimestamps s) [] [] = (c', st', du')"
    by (cases "rewriteTrafs trafs (trackTimestamps s) [] []") auto
  have inv: "distinct (map fst du')
    \<and> (\<forall>t. counterOf s t \<le> (case c' t of None \<Rightarrow> 0 | Some x \<Rightarrow> x))
    \<and> (\<forall>(t, d) \<in> set du'. 0 \<le> d \<and> c' t \<noteq> None \<and> counterOf s t + d \<le> (case c' t of None \<Rightarrow> 0 | Some x \<Rightarrow> x))"
    by (rule rewriteTrafs_invariant [OF r]) (simp_all add: counterOf_def)
  let ?s1 = "s\<lparr> trackTimestamps := c' \<rparr>"
  have "\<forall>t. counterOf s t \<le> counterOf (processTrafDurations du' ?s1) t"
    by (rule processTrafDurations_counters) (use inv in \<open>auto simp: counterOf_def\<close>)
  then show ?thesis
    by (simp add: rewriteAndCheck_def rewriteMoofTimestamps_def Some r)
qed

lemma counterOf_cong: "trackTimestamps a = trackTimestamps b \<Longrightarrow> counterOf a t = counterOf b t"
  by (simp add: counterOf_def)

lemma handleBox_countersGrow: "countersGrow s (handleBox env now b s)"
proof -
  have c: "trackTimestamps (cutBeforeMoof env now s) = trackTimestamps s"
    by (simp add: cutBeforeMoof_cutDue outputSegment_frame)
  have moof: "counterOf s t \<le> counterOf (handleMoof env now b s) t" for t
    using rewriteAndCheck_counters [of "cutBeforeMoof env now s" t env b]
    by (simp add: handleMoof_unfold counterOf_def c)
  have init: "trackTimestamps (handleInitBox env b s) = trackTimestamps s"
    by (simp add: handleInitBox_def Let_def split: option.splits)
  show ?thesis
    using moof by (simp add: countersGrow_def handleBox_def counterOf_cong [OF init])
                  (simp add: counterOf_def)
qed

lemma run_countersGrow: "countersGrow s (run env s calls)"
proof (rule run_related [of countersGrow])
  show "countersGrow st st" for st by (simp add: countersGrow_def)
  show "countersGrow a b \<Longrightarrow> countersGrow b c \<Longrightarrow> countersGrow a c" for a b c
    by (auto simp: countersGrow_def intro: order_trans)
  show "countersGrow st (handleBox env now b st)" for now b st by (rule handleBox_countersGrow)
  show "countersGrow st (st\<lparr> parserResidue := r \<rparr>)" for r st
    by (simp add: countersGrow_def counterOf_def)
  show "countersGrow st (st\<lparr> effects := effects st @ [OnError e] \<rparr>)" for e st
    by (simp add: countersGrow_def counterOf_def)
  show "countersGrow st (handleEnd env now st)" for now st
    by (simp add: countersGrow_def counterOf_def handleEnd_def parserFlush_def Let_def outputSegment_frame)
  show "countersGrow st (handleError e st)" for e st
    by (simp add: countersGrow_def counterOf_def handleError_def parserFlush_def Let_def)
  show "countersGrow st (markDiscontinuity env now st)" for now st
    by (simp add: countersGrow_def counterOf_def markDiscontinuity_def outputSegment_frame)
  show "countersGrow st (pipe stream st)" for stream st
    by (simp add: countersGrow_def counterOf_def pipe_def)
  show "countersGrow st (stop st)" for st
    by (simp add: countersGrow_def counterOf_def stop_def parserFlush_def Let_def split: option.splits)
qed

lemma rewriteTrafs_distinct:
  assumes "rewriteTrafs trafs c st du = (c', st', du')"
    and "distinct (map fst trafs)"
    and "set (map fst trafs) \<inter> set (map fst du) = {}"
  shows "du' = du @ map (\<lambda>(t, n). (t, int n)) trafs
    \<and> (\<forall>t. c' t = (case map_of trafs t of
                       None \<Rightarrow> c t
                     | Some n \<Rightarrow> Some ((case c t of None \<Rightarrow> 0 | Some x \<Rightarrow> x) + int n)))"
  using assms
proof (induction trafs arbitrary: c st du)
  case Nil
  then show ?case by simp
next
  case (Cons p trafs)
  obtain t n where p: "p = (t, n)" by (cases p)
  let ?cur = "case c t of None \<Rightarrow> 0 | Some x \<Rightarrow> x"
  let ?c1 = "c(t \<mapsto> ?cur + int n)"
  have absent: "t \<notin> fst ` set du" using Cons.prems(3) by (auto simp: p)
  have du1: "mapSet t (int n) du = du @ [(t, int n)]" using absent by (rule mapSet_absent)
  have run: "rewriteTrafs trafs ?c1 (st @ [(t, ?cur)]) (du @ [(t, int n)]) = (c', st', du')"
    using Cons.prems(1) by (simp add: p Let_def du1)
  have d: "distinct (map fst trafs)" and nt: "t \<notin> fst ` set trafs"
    using Cons.prems(2) by (auto simp: p)
  have dj: "set (map fst trafs) \<inter> set (map fst (du @ [(t, int n)])) = {}"
    using Cons.prems(3) nt by (auto simp: p)
  have ih: "du' = (du @ [(t, int n)]) @ map (\<lambda>(t, n). (t, int n)) trafs
    \<and> (\<forall>u. c' u = (case map_of trafs u of
                       None \<Rightarrow> ?c1 u
                     | Some m \<Rightarrow> Some ((case ?c1 u of None \<Rightarrow> 0 | Some x \<Rightarrow> x) + int m)))"
    by (rule Cons.IH [OF run d dj])
  have mt: "map_of trafs t = None" using nt by (simp add: map_of_eq_None_iff)
  show ?case
    using ih mt by (auto simp: p split: option.splits)
qed

lemma checkTrafDuration_view_other:
  "u \<noteq> t \<Longrightarrow> trackView u (checkTrafDuration t d s) = trackView u s"
  by (auto simp: trackView_def checkTrafDuration_def accumulateDuration_def Let_def map_of_mapSet
        split: option.splits)

lemma checkTrafDuration_view_cong:
  "trackView t a = trackView t b \<Longrightarrow>
   trackView t (checkTrafDuration t d a) = trackView t (checkTrafDuration t d b)"
  by (auto simp: trackView_def checkTrafDuration_def accumulateDuration_def Let_def map_of_mapSet
        split: option.splits)

lemma processTrafDurations_view_other:
  "t \<notin> fst ` set ds \<Longrightarrow> trackView t (processTrafDurations ds s) = trackView t s"
proof (induction ds arbitrary: s)
  case Nil
  show ?case by simp
next
  case (Cons p ds)
  obtain u d where p: "p = (u, d)" by (cases p)
  have "u \<noteq> t" "t \<notin> fst ` set ds" using Cons.prems by (auto simp: p)
  then show ?case
    using Cons.IH [of "checkTrafDuration u d s"] checkTrafDuration_view_other [of t u d s]
    by (simp add: p)
qed

lemma processTrafDurations_view_member:
  "distinct (map fst ds) \<Longrightarrow> (t, d) \<in> set ds \<Longrightarrow>
   trackView t (processTrafDurations ds s) = trackView t (checkTrafDuration t d s)"
proof (induction ds arbitrary: s)
  case Nil
  then show ?case by simp
next
  case (Cons p ds)
  obtain u e where p: "p = (u, e)" by (cases p)
  show ?case
  proof (cases "u = t")
    case True
    then have "e = d" "t \<notin> fst ` set ds"
      using Cons.prems by (auto simp: p dest: in_keys)
    then show ?thesis
      using True processTrafDurations_view_other [of t ds "checkTrafDuration t d s"]
      by (simp add: p)
  next
    case False
    then have m: "(t, d) \<in> set ds" "distinct (map fst ds)" using Cons.prems by (auto simp: p)
    have "trackView t (processTrafDurations ds (checkTrafDuration u e s))
            = trackView t (checkTrafDuration t d (checkTrafDuration u e s))"
      by (rule Cons.IH [OF m(2) m(1)])
    also have "\<dots> = trackView t (checkTrafDuration t d s)"
      by (rule checkTrafDuration_view_cong) (rule checkTrafDuration_view_other [OF False [symmetric]])
    finally show ?thesis by (simp add: p)
  qed
qed

text \<open>
  A moof on a running segmenter, seen from one of its tracks: the rewriter has advanced
  the track's counter by the traf's duration, and the loop body has run once for it.
\<close>

lemma handleBox_track_view:
  assumes "\<not> stopped s" and "type b = ''moof''"
    and "trafDurationsOf env (data b) = Some trafs"
    and "distinct (map fst trafs)" and "(t, n) \<in> set trafs"
  shows "trackView t (handleBox env now b s) =
           trackView t (checkTrafDuration t (int n)
             ((cutBeforeMoof env now s)\<lparr> trackTimestamps :=
                 (trackTimestamps s)(t \<mapsto> counterOf s t + int n) \<rparr>))"
proof -
  let ?s1 = "cutBeforeMoof env now s"
  have tt: "trackTimestamps ?s1 = trackTimestamps s"
    by (simp add: cutBeforeMoof_cutDue outputSegment_frame)
  obtain c' st' du' where r: "rewriteTrafs trafs (trackTimestamps s) [] [] = (c', st', du')"
    by (cases "rewriteTrafs trafs (trackTimestamps s) [] []") auto
  have ex: "du' = [] @ map (\<lambda>(t, n). (t, int n)) trafs
    \<and> (\<forall>u. c' u = (case map_of trafs u of
                       None \<Rightarrow> trackTimestamps s u
                     | Some m \<Rightarrow> Some ((case trackTimestamps s u of None \<Rightarrow> 0 | Some x \<Rightarrow> x) + int m)))"
    by (rule rewriteTrafs_distinct [OF r assms(4)]) simp
  have mo: "map_of trafs t = Some n" using assms(4,5) by simp
  have ct: "c' t = Some (counterOf s t + int n)"
    using ex mo by (simp add: counterOf_def)
  have dd: "distinct (map fst du')"
    using ex assms(4) by (simp add: comp_def case_prod_unfold)
  have mem: "(t, int n) \<in> set du'"
    using ex assms(5) by force
  have hb: "handleBox env now b s = handleMoof env now b s"
    using assms(1,2) by (simp add: handleBox_def)
  have rc: "fst (rewriteAndCheck env b ?s1) = processTrafDurations du' (?s1\<lparr> trackTimestamps := c' \<rparr>)"
    by (simp add: rewriteAndCheck_def rewriteMoofTimestamps_def assms(3) tt r)
  have "trackView t (handleBox env now b s) = trackView t (fst (rewriteAndCheck env b ?s1))"
    unfolding hb handleMoof_unfold by (simp add: trackView_def)
  also have "\<dots> = trackView t (checkTrafDuration t (int n) (?s1\<lparr> trackTimestamps := c' \<rparr>))"
    unfolding rc by (rule processTrafDurations_view_member [OF dd mem])
  also have "\<dots> = trackView t (checkTrafDuration t (int n)
             (?s1\<lparr> trackTimestamps := (trackTimestamps s)(t \<mapsto> counterOf s t + int n) \<rparr>))"
    by (rule checkTrafDuration_view_cong) (simp add: trackView_def ct)
  finally show ?thesis .
qed





subsection \<open>Sanity clamp\<close>




subsection \<open>Counters never decrease\<close>

lemma checkTrafDuration_advance:
  assumes "trackTimestamps st t = Some (c0 + d)" and "trackExpectedDurations st t = x"
  shows "trackTimestamps (checkTrafDuration t d st) t = Some (c0 + d)
       \<or> (\<exists>e. x = Some e \<and> 0 < e \<and> trackTimestamps (checkTrafDuration t d st) t = Some (c0 + e))"
  using assms
  by (auto simp: checkTrafDuration_def accumulateDuration_def Let_def
        split: option.splits dest: abnormalDuration_pos)

text \<open>
  C2. No call ever lowers the counter of a track (read as zero while the track has
  none): not the handling of a box, not any single call, not any run of calls, and a
  segmenter seeded with the counters of its predecessor never falls below them. A moof
  with one traf per track leaves the counter of each of its tracks at the value before
  the moof plus either the trun-computed duration or, when the sanity clamp fires, the
  anchored positive baseline, so the clamp's \<open>counter - duration + baseline\<close> stays
  above the value before the moof.
\<close>

theorem C2_counters_never_decrease:
  "counterOf s t \<le> counterOf (handleBox env now b s) t
   \<and> counterOf s t \<le> counterOf (step env s c) t
   \<and> counterOf s t \<le> counterOf (run env s calls) t
   \<and> (initialTrackTimestamps opts = Some (getTrackTimestamps old) \<longrightarrow>
        counterOf old t \<le> counterOf (run env (createFMP4Segmenter opts t0) calls) t)
   \<and> (\<not> stopped s \<and> type b = ''moof'' \<and> trafDurationsOf env (data b) = Some trafs
        \<and> distinct (map fst trafs) \<and> (t, n) \<in> set trafs \<longrightarrow>
        trackTimestamps (handleBox env now b s) t = Some (counterOf s t + int n)
        \<or> (\<exists>e. trackExpectedDurations s t = Some e \<and> 0 < e
                \<and> trackTimestamps (handleBox env now b s) t = Some (counterOf s t + e)))"
proof -
  have a: "counterOf s t \<le> counterOf (handleBox env now b s) t"
    using handleBox_countersGrow [of s env now b] by (simp add: countersGrow_def)
  have r: "counterOf s0 t \<le> counterOf (run env s0 cs) t" for s0 cs
    using run_countersGrow [of s0 env cs] by (simp add: countersGrow_def)
  have st: "counterOf s t \<le> counterOf (step env s c) t"
    using r [of s "[c]"] by (simp add: run_def)
  have h: "initialTrackTimestamps opts = Some (getTrackTimestamps old) \<longrightarrow>
        counterOf old t \<le> counterOf (run env (createFMP4Segmenter opts t0) calls) t"
  proof
    assume "initialTrackTimestamps opts = Some (getTrackTimestamps old)"
    then have "counterOf (createFMP4Segmenter opts t0) t = counterOf old t"
      by (simp add: counterOf_def createFMP4Segmenter_def getTrackTimestamps_def)
    then show "counterOf old t \<le> counterOf (run env (createFMP4Segmenter opts t0) calls) t"
      using r [of "createFMP4Segmenter opts t0" calls] by simp
  qed
  have m: "\<not> stopped s \<and> type b = ''moof'' \<and> trafDurationsOf env (data b) = Some trafs
        \<and> distinct (map fst trafs) \<and> (t, n) \<in> set trafs \<longrightarrow>
        trackTimestamps (handleBox env now b s) t = Some (counterOf s t + int n)
        \<or> (\<exists>e. trackExpectedDurations s t = Some e \<and> 0 < e
                \<and> trackTimestamps (handleBox env now b s) t = Some (counterOf s t + e))"
  proof
    assume p: "\<not> stopped s \<and> type b = ''moof'' \<and> trafDurationsOf env (data b) = Some trafs
        \<and> distinct (map fst trafs) \<and> (t, n) \<in> set trafs"
    let ?s2 = "(cutBeforeMoof env now s)\<lparr> trackTimestamps :=
                 (trackTimestamps s)(t \<mapsto> counterOf s t + int n) \<rparr>"
    have v: "trackView t (handleBox env now b s) = trackView t (checkTrafDuration t (int n) ?s2)"
      using p by (intro handleBox_track_view) auto
    have c: "trackExpectedDurations ?s2 t = trackExpectedDurations s t"
      by (simp add: cutBeforeMoof_cutDue outputSegment_frame)
    have tt: "trackTimestamps ?s2 t = Some (counterOf s t + int n)" by simp
    have eq: "trackTimestamps (handleBox env now b s) t = trackTimestamps (checkTrafDuration t (int n) ?s2) t"
      using v by (simp add: trackView_def)
    show "trackTimestamps (handleBox env now b s) t = Some (counterOf s t + int n)
        \<or> (\<exists>e. trackExpectedDurations s t = Some e \<and> 0 < e
                \<and> trackTimestamps (handleBox env now b s) t = Some (counterOf s t + e))"
      unfolding eq by (rule checkTrafDuration_advance [OF tt c])
  qed
  show ?thesis using a st r [of s calls] h m by blast
qed

theorem C2_counters_never_decrease_witness:
  "counterOf bufferedState 1 = 90000
   \<and> counterOf bufferedState 1
        \<le> counterOf (run plainEnv bufferedState [(500, HandleBox (box ''moof'' [25]))]) 1
   \<and> (trackTimestamps (handleBox plainEnv 500 (box ''moof'' [25]) bufferedState) 1 = Some 2340000
        \<or> trackTimestamps (handleBox plainEnv 500 (box ''moof'' [25]) bufferedState) 1 = Some 180000)"
proof -
  have tr: "trafDurationsOf plainEnv (data (box ''moof'' [25])) = Some [(1, 2250000)]"
    by (simp add: box_facts plainEnv_trafs)
  have di: "distinct (map fst [(1::nat, 2250000::nat)])" "(1::nat, 2250000::nat) \<in> set [(1, 2250000)]"
    by simp_all
  show ?thesis
    using C2_counters_never_decrease [of bufferedState 1 plainEnv 500 "box ''moof'' [25]"
            "(500, HandleBox (box ''moof'' [25]))" "[(500, HandleBox (box ''moof'' [25]))]"
            freshOptions bufferedState 0 "[(1, 2250000)]" 2250000]
          bufferedState_facts box_facts(1) [of "''moof''" "[25]"] tr di
    by simp
qed

subsection \<open>A moof whose rewrite throws\<close>

lemma outputSegment_no_OnError:
  "OnError e \<in> set (effects (outputSegment env now s)) \<Longrightarrow> OnError e \<in> set (effects s)"
  using outputSegment_effects [of s env now]
  by (cases "fragmentBuffer s = []") (auto simp: outputSegment_empty)

lemma handleBox_no_OnError:
  "OnError e \<in> set (effects (handleBox env now b s)) \<Longrightarrow> OnError e \<in> set (effects s)"
proof -
  assume a: "OnError e \<in> set (effects (handleBox env now b s))"
  have moof: "OnError e \<in> set (effects (handleMoof env now b s)) \<Longrightarrow> OnError e \<in> set (effects s)"
    using outputSegment_no_OnError [of e env now s]
    by (simp add: handleMoof_unfold rewriteAndCheck_frame cutBeforeMoof_cutDue split: if_splits)
  have init: "OnError e \<in> set (effects (handleInitBox env b s)) \<Longrightarrow> OnError e \<in> set (effects s)"
    by (auto simp: handleInitBox_def Let_def split: option.splits if_splits)
  show ?thesis
    using a moof init by (auto simp: handleBox_def split: if_splits)
qed

text \<open>
  C7, as the code has it. When the rewrite of a moof throws on a running segmenter,
  the segmenter stays running, the moof's own bytes are appended to the fragment buffer
  (after the cut decision), the track counters and baselines are untouched, so the
  rewrite of the next moof starts from the counters it would have started from, and no
  \<^verbatim>\<open>onError\<close> is called; no box ever makes \<^verbatim>\<open>handleBox\<close> call \<^verbatim>\<open>onError\<close>. The
  indeterminate counter does not move: it belongs to the keyframe diagnostics, which
  the constant \<^verbatim>\<open>KEYFRAME_DEBUG = false\<close> switches off.
\<close>

theorem C7_rewrite_failure:
  assumes "\<not> stopped s" and "type b = ''moof''" and "trafDurationsOf env (data b) = None"
  shows "\<not> stopped (handleBox env now b s)
   \<and> fragmentBuffer (handleBox env now b s) = fragmentBuffer (cutBeforeMoof env now s) @ [data b]
   \<and> trackTimestamps (handleBox env now b s) = trackTimestamps s
   \<and> trackExpectedDurations (handleBox env now b s) = trackExpectedDurations s
   \<and> rewriteMoofTimestamps env nextMoof (trackTimestamps (handleBox env now b s))
        = rewriteMoofTimestamps env nextMoof (trackTimestamps s)
   \<and> indeterminateCount (handleBox env now b s) = indeterminateCount s
   \<and> effects (handleBox env now b s) = effects (cutBeforeMoof env now s)
   \<and> (OnError e \<in> set (effects (handleBox env now b s)) \<longrightarrow> OnError e \<in> set (effects s))
   \<and> (OnError e \<in> set (effects (handleBox env now anyBox anyState)) \<longrightarrow>
        OnError e \<in> set (effects anyState))"
proof -
  have hb: "handleBox env now b s = handleMoof env now b s"
    using assms by (simp add: handleBox_def)
  have rc: "rewriteAndCheck env b st = (st, data b)" for st
    using assms(3) by (simp add: rewriteAndCheck_def rewriteMoofTimestamps_def)
  have hm: "handleMoof env now b s =
      (cutBeforeMoof env now s)\<lparr> fragmentBuffer := fragmentBuffer (cutBeforeMoof env now s) @ [data b] \<rparr>"
    by (simp add: handleMoof_unfold rc)
  have fr: "stopped (cutBeforeMoof env now s) = stopped s"
      "trackTimestamps (cutBeforeMoof env now s) = trackTimestamps s"
      "trackExpectedDurations (cutBeforeMoof env now s) = trackExpectedDurations s"
      "indeterminateCount (cutBeforeMoof env now s) = indeterminateCount s"
    by (simp_all add: cutBeforeMoof_cutDue outputSegment_frame)
  show ?thesis
    using assms(1) handleBox_no_OnError [of e env now b s] handleBox_no_OnError [of e env now anyBox anyState]
    by (simp add: hb hm fr)
qed

theorem C7_rewrite_failure_witness:
  "\<not> stopped bufferedState
   \<and> trafDurationsOf plainEnv (data (box ''moof'' [255])) = None
   \<and> \<not> stopped (handleBox plainEnv 5 (box ''moof'' [255]) bufferedState)
   \<and> trackTimestamps (handleBox plainEnv 5 (box ''moof'' [255]) bufferedState) = trackTimestamps bufferedState
   \<and> fragmentBuffer (handleBox plainEnv 5 (box ''moof'' [255]) bufferedState)
        = fragmentBuffer (cutBeforeMoof plainEnv 5 bufferedState) @ [[255]]"
proof -
  have tr: "trafDurationsOf plainEnv (data (box ''moof'' [255])) = None"
    by (simp add: box_facts plainEnv_trafs)
  show ?thesis
    using C7_rewrite_failure [OF bufferedState_facts(1) box_facts(1) tr, of 5] bufferedState_facts(1) tr
    by (simp add: box_facts)
qed

text \<open>
  The specification has the fault counted; the moof \<open>[255]\<close>, whose rewrite throws, leaves the
  indeterminate counter where it was.
\<close>

theorem C7_indeterminate_counter_counterexample:
  "\<not> stopped bufferedState
   \<and> rewriteMoofTimestamps plainEnv (data (box ''moof'' [255])) (trackTimestamps bufferedState) = None
   \<and> indeterminateCount (handleBox plainEnv 5 (box ''moof'' [255]) bufferedState)
        = indeterminateCount bufferedState
   \<and> indeterminateCount (handleBox plainEnv 5 (box ''moof'' [255]) bufferedState)
        \<noteq> indeterminateCount bufferedState + 1"
proof -
  have hb: "handleBox plainEnv 5 (box ''moof'' [255]) bufferedState
             = handleMoof plainEnv 5 (box ''moof'' [255]) bufferedState"
    using bufferedState_facts(1) by (simp add: handleBox_def box_facts)
  have "indeterminateCount (handleBox plainEnv 5 (box ''moof'' [255]) bufferedState)
          = indeterminateCount bufferedState"
    unfolding hb
    by (simp add: handleMoof_unfold rewriteAndCheck_frame cutBeforeMoof_cutDue outputSegment_frame)
  then show ?thesis
    using bufferedState_facts(1) by (simp add: rewriteMoofTimestamps_def box_facts plainEnv_trafs)
qed

end
